theory Spec2Isabelle
  imports Main "HOL-Library.Word"
begin

section \<open>Values, buffers and errors\<close>

text \<open>
  The PXE database entry \<open>DeferredNoteDao\<close> and the \<open>Synchronizer\<close> of
  \<^verbatim>\<open>yarn-project/pxe\<close> are embedded here. A JavaScript \<open>Buffer\<close> is a list of
  bytes, a JavaScript \<open>number\<close> that holds a block number, a limit or an index is an
  \<open>int\<close>, and every \<open>throw\<close> of the source is the \<open>Inl\<close> branch of a sum.
\<close>

type_synonym byte = "8 word"
type_synonym buffer = "byte list"

datatype error =
    RangeError
  | TypeError
  | Error string
  | NodeError string
  | DatabaseError string

text \<open>
  Modelled from the spec: the classes \<open>Fr\<close>, \<open>AztecAddress\<close>, \<open>TxHash\<close> and
  \<open>Point\<close> of \<^verbatim>\<open>@aztec/circuits.js\<close> and \<^verbatim>\<open>@aztec/types\<close> are not part of the
  sources at hand. The spec gives their serialised widths: a field element, an address
  and a transaction hash are 32 bytes big-endian, a public key (a point) is 64 bytes.
\<close>

type_synonym fr = "256 word"
type_synonym aztec_address = "256 word"
type_synonym tx_hash = "256 word"

record point =
  point_x :: fr
  point_y :: fr

type_synonym public_key = point

section \<open>Serialisation primitives\<close>

text \<open>
  Modelled from the spec: \<open>serializeToBuffer\<close>, \<open>Vector\<close> and \<open>BufferReader\<close> are
  not part of the sources at hand. Following the spec, a number is written as a
  big-endian \<open>u32\<close>, a \<open>Vector\<close> as a \<open>u32\<close> length followed by that many
  fixed-width elements, and \<open>serializeToBuffer\<close> concatenates the pieces in argument
  order. A number outside the \<open>u32\<close> range cannot be written, and a read beyond the
  end of the buffer fails; both are errors of the model.
\<close>

fun toBufferBE :: "nat \<Rightarrow> nat \<Rightarrow> buffer" where
  "toBufferBE v 0 = []"
| "toBufferBE v (Suc width) = toBufferBE (v div 256) width @ [of_nat (v mod 256)]"

definition toBigIntBE :: "buffer \<Rightarrow> nat" where
  "toBigIntBE buf = foldl (\<lambda>acc b. acc * 256 + unat b) 0 buf"

definition numToUInt32BE :: "int \<Rightarrow> error + buffer" where
  "numToUInt32BE n =
     (if 0 \<le> n \<and> n < 2 ^ 32 then Inr (toBufferBE (nat n) 4) else Inl RangeError)"

definition fr_toBuffer :: "fr \<Rightarrow> buffer" where
  "fr_toBuffer v = toBufferBE (unat v) 32"

definition point_toBuffer :: "point \<Rightarrow> buffer" where
  "point_toBuffer p = fr_toBuffer (point_x p) @ fr_toBuffer (point_y p)"

type_synonym 'a reader = "buffer \<Rightarrow> error + ('a \<times> buffer)"

definition readBytes :: "nat \<Rightarrow> buffer reader" where
  "readBytes n buf =
     (if length buf < n then Inl RangeError else Inr (take n buf, drop n buf))"

definition readNumber :: "int reader" where
  "readNumber buf =
     (case readBytes 4 buf of
        Inl e \<Rightarrow> Inl e
      | Inr (bs, rest) \<Rightarrow> Inr (int (toBigIntBE bs), rest))"

definition readFr :: "fr reader" where
  "readFr buf =
     (case readBytes 32 buf of
        Inl e \<Rightarrow> Inl e
      | Inr (bs, rest) \<Rightarrow> Inr (of_nat (toBigIntBE bs), rest))"

definition readPoint :: "point reader" where
  "readPoint buf =
     (case readFr buf of
        Inl e \<Rightarrow> Inl e
      | Inr (px, rest) \<Rightarrow>
          (case readFr rest of
             Inl e \<Rightarrow> Inl e
           | Inr (py, rest') \<Rightarrow> Inr (\<lparr>point_x = px, point_y = py\<rparr>, rest')))"

fun readItems :: "'a reader \<Rightarrow> nat \<Rightarrow> ('a list) reader" where
  "readItems rd 0 buf = Inr ([], buf)"
| "readItems rd (Suc n) buf =
     (case rd buf of
        Inl e \<Rightarrow> Inl e
      | Inr (v, rest) \<Rightarrow>
          (case readItems rd n rest of
             Inl e \<Rightarrow> Inl e
           | Inr (vs, rest') \<Rightarrow> Inr (v # vs, rest')))"

definition readVector :: "'a reader \<Rightarrow> ('a list) reader" where
  "readVector rd buf =
     (case readNumber buf of
        Inl e \<Rightarrow> Inl e
      | Inr (count, rest) \<Rightarrow> readItems rd (nat count) rest)"

definition vector_toBuffer :: "fr list \<Rightarrow> error + buffer" where
  "vector_toBuffer items =
     (case numToUInt32BE (int (length items)) of
        Inl e \<Rightarrow> Inl e
      | Inr len \<Rightarrow> Inr (len @ concat (map fr_toBuffer items)))"

section \<open>DeferredNoteDao\<close>

text \<open>
  The class \<open>DeferredNoteDao\<close>, field by field. The class \<open>Note\<close> is not part of
  the sources at hand and the spec does not give its byte layout, so the note is a type
  parameter and its \<open>toBuffer\<close> and \<open>fromBuffer\<close> are parameters of the two
  functions below (the field \<open>note\<close> is \<open>the_note\<close>, as \<open>note\<close> is a keyword).
\<close>

record 'n deferred_note_dao =
  publicKey :: public_key
  the_note :: 'n
  contractAddress :: aztec_address
  storageSlot :: fr
  txHash :: tx_hash
  txNullifier :: fr
  newCommitments :: "fr list"
  dataStartIndexForTx :: int

definition toBuffer :: "('n \<Rightarrow> error + buffer) \<Rightarrow> 'n deferred_note_dao \<Rightarrow> error + buffer" where
  "toBuffer note_toBuffer d =
     (case note_toBuffer (the_note d) of
        Inl e \<Rightarrow> Inl e
      | Inr note_buf \<Rightarrow>
          (case vector_toBuffer (newCommitments d) of
             Inl e \<Rightarrow> Inl e
           | Inr commitments_buf \<Rightarrow>
               (case numToUInt32BE (dataStartIndexForTx d) of
                  Inl e \<Rightarrow> Inl e
                | Inr index_buf \<Rightarrow>
                    Inr (point_toBuffer (publicKey d)
                         @ note_buf
                         @ fr_toBuffer (contractAddress d)
                         @ fr_toBuffer (storageSlot d)
                         @ fr_toBuffer (txHash d)
                         @ fr_toBuffer (txNullifier d)
                         @ commitments_buf
                         @ index_buf))))"

definition fromBuffer :: "'n reader \<Rightarrow> buffer \<Rightarrow> error + 'n deferred_note_dao" where
  "fromBuffer note_fromBuffer buf =
     (case readPoint buf of Inl e \<Rightarrow> Inl e | Inr (pk, r1) \<Rightarrow>
     (case note_fromBuffer r1 of Inl e \<Rightarrow> Inl e | Inr (n, r2) \<Rightarrow>
     (case readFr r2 of Inl e \<Rightarrow> Inl e | Inr (ca, r3) \<Rightarrow>
     (case readFr r3 of Inl e \<Rightarrow> Inl e | Inr (slot, r4) \<Rightarrow>
     (case readFr r4 of Inl e \<Rightarrow> Inl e | Inr (th, r5) \<Rightarrow>
     (case readFr r5 of Inl e \<Rightarrow> Inl e | Inr (tn, r6) \<Rightarrow>
     (case readVector readFr r6 of Inl e \<Rightarrow> Inl e | Inr (cs, r7) \<Rightarrow>
     (case readNumber r7 of Inl e \<Rightarrow> Inl e | Inr (idx, r8) \<Rightarrow>
        Inr \<lparr>publicKey = pk, the_note = n, contractAddress = ca, storageSlot = slot,
             txHash = th, txNullifier = tn, newCommitments = cs,
             dataStartIndexForTx = idx\<rparr>))))))))"

section \<open>Blocks, logs, headers and notes\<close>

text \<open>
  Modelled from the spec: \<open>L2Block\<close>, \<open>L2BlockL2Logs\<close>, \<open>L2BlockContext\<close>,
  \<open>BlockHeader\<close> and \<open>NoteDao\<close> are declared outside the sources at hand. A block
  carries its number, its global variables, the roots of its six end-of-block tree
  snapshots and the two log bundles attached to it (\<open>None\<close> is JavaScript's
  \<open>undefined\<close>). A log bundle holds, for each transaction, the list of its log
  entries. The header has the eight constructor arguments of \<open>setBlockDataFromBlock\<close>,
  in their order.
\<close>

datatype log_type = ENCRYPTED | UNENCRYPTED

type_synonym l2_block_l2_logs = "buffer list list"

type_synonym global_variables = "fr list"

record l2_block =
  number :: int
  globalVariables :: global_variables
  endNoteHashTreeSnapshot_root :: fr
  endNullifierTreeSnapshot_root :: fr
  endContractTreeSnapshot_root :: fr
  endL1ToL2MessageTreeSnapshot_root :: fr
  endArchiveSnapshot_root :: fr
  endPublicDataTreeSnapshot_root :: fr
  newEncryptedLogs :: "l2_block_l2_logs option"
  newUnencryptedLogs :: "l2_block_l2_logs option"

record l2_block_context =
  block :: l2_block

record block_header =
  noteHashTreeRoot :: fr
  nullifierTreeRoot :: fr
  contractTreeRoot :: fr
  l1ToL2MessagesTreeRoot :: fr
  archiveRoot :: fr
  privateKernelVkTreeRoot :: fr
  publicDataTreeRoot :: fr
  globalVariablesHash :: fr

definition getTotalLogCount :: "l2_block_l2_logs list \<Rightarrow> nat" where
  "getTotalLogCount logs = sum_list (map (\<lambda>l. sum_list (map length l)) logs)"

text \<open>
  JavaScript compares the keys of a \<open>Map\<close> by object identity, and
  \<open>reprocessDeferredNotesForContract\<close> keys one map by the \<open>txHash\<close> object of a
  deferred note and another by the \<open>publicKey\<close> object of a decoded note. The
  identity of these two objects is therefore part of the data: \<open>txHash_ref\<close> and
  \<open>publicKey_ref\<close> are the addresses of the objects, next to their values.
\<close>

record 'n deferred_note_ref = "'n deferred_note_dao" +
  txHash_ref :: nat

record 'n note_dao =
  publicKey :: public_key
  publicKey_ref :: nat
  contractAddress :: aztec_address
  storageSlot :: fr
  the_note :: 'n
  noteHash :: fr
  siloedNullifier :: fr
  txHash :: tx_hash
  leafIndex :: nat

section \<open>Note processors and the database\<close>

text \<open>
  Modelled from the spec: the class \<open>NoteProcessor\<close> is not part of the sources at
  hand. A processor holds the public key of its account, its key store (an opaque
  handle here) and \<open>status.syncedToBlock\<close>, which starts at \<open>startingBlock - 1\<close>.
\<close>

type_synonym key_store = nat

record note_processor =
  publicKey :: public_key
  keyStore :: key_store
  syncedToBlock :: int

definition new_NoteProcessor :: "public_key \<Rightarrow> key_store \<Rightarrow> int \<Rightarrow> note_processor" where
  "new_NoteProcessor pk ks startingBlock =
     \<lparr>publicKey = pk, keyStore = ks, syncedToBlock = startingBlock - 1\<rparr>"

text \<open>
  Modelled from the spec: the \<open>PxeDatabase\<close> is not part of the sources at hand. It
  stores the block number and header written by \<open>setBlockData\<close> (absent until the
  first write), the notes and the deferred notes.
\<close>

record 'n pxe_database =
  blockNumber :: "int option"
  blockHeader :: "block_header option"
  storedNotes :: "'n note_dao list"
  storedDeferredNotes :: "'n deferred_note_ref list"

section \<open>Collaborators\<close>

text \<open>
  The calls the synchronizer makes on the database and on a note processor. Each call is
  recorded in the trace of the synchronizer when it is made, and may throw.
\<close>

datatype 'n call =
    SetBlockData int block_header
  | EstimateSize
  | Process public_key "l2_block_context list" "l2_block_l2_logs list"
  | GetDeferredNotesByContract aztec_address
  | DecodeDeferredNotes public_key "'n deferred_note_ref list"
  | RemoveDeferredNotesByContract aztec_address
  | AddNotes "'n note_dao list"
  | RemoveNullifiedNotes "fr list" public_key

text \<open>
  What \<open>this.log\<close> receives, and the calls above, in the order they happen.
  \<open>NoteProcessorCaughtUp\<close> is the log entry that carries the event name
  \<^verbatim>\<open>note-processor-caught-up\<close>; the numbers of \<open>LogForwarding\<close> are the log count
  and the number of note processors of the message.
\<close>

datatype 'n event =
    Call "'n call"
  | Log string
  | LogForwarding nat nat
  | LogForwardingCatchUp nat
  | NoteProcessorCaughtUp public_key
  | LogDecoded aztec_address fr fr
  | LogError string error

text \<open>
  The node and everything else the synchronizer does not control: the answers of the
  node RPCs (\<open>Inl\<close> when the RPC fails), whether a recorded call throws, whether
  \<open>attachLogs\<close> throws, the notes a processor decrypts from a batch or decodes from
  deferred notes, the hash \<open>computeGlobalsHash\<close> and \<open>Point.toString\<close>.
  \<open>findLeafIndex\<close> answers \<open>bigint | undefined\<close>: \<open>None\<close> is \<open>undefined\<close>.
\<close>

record 'n env =
  node_getBlockNumber :: "error + int"
  node_getBlockHeader :: "error + block_header"
  node_getLogs :: "int \<Rightarrow> int \<Rightarrow> log_type \<Rightarrow> error + l2_block_l2_logs list"
  node_getBlocks :: "int \<Rightarrow> int \<Rightarrow> error + l2_block list"
  node_findLeafIndex :: "fr \<Rightarrow> error + nat option"
  throws :: "'n call \<Rightarrow> error option"
  attachLogs_throws :: "l2_block \<Rightarrow> l2_block_l2_logs option \<Rightarrow> log_type \<Rightarrow> error option"
  decrypted :: "public_key \<Rightarrow> l2_block_context list \<Rightarrow> l2_block_l2_logs list
                  \<Rightarrow> 'n note_dao list \<times> 'n deferred_note_ref list"
  decoded :: "public_key \<Rightarrow> 'n deferred_note_ref list \<Rightarrow> 'n note_dao list"
  computeGlobalsHash :: "global_variables \<Rightarrow> fr"
  toString :: "public_key \<Rightarrow> string"

section \<open>The synchronizer\<close>

text \<open>
  The fields of the class \<open>Synchronizer\<close>. The database is the one the constructor
  receives; \<open>trace\<close> collects the log entries and the recorded calls. The ticker
  (\<open>runningPromise\<close>) and the job queue are not modelled: every operation below runs
  alone, from its first statement to its last.
\<close>

record 'n synchronizer =
  noteProcessors :: "note_processor list"
  running :: bool
  initialSyncBlockNumber :: int
  noteProcessorsToCatchUp :: "note_processor list"
  db :: "'n pxe_database"
  trace :: "'n event list"

definition new_Synchronizer :: "int \<Rightarrow> 'n pxe_database \<Rightarrow> 'n synchronizer" where
  "new_Synchronizer INITIAL_L2_BLOCK_NUM database =
     \<lparr>noteProcessors = [], running = False,
      initialSyncBlockNumber = INITIAL_L2_BLOCK_NUM - 1,
      noteProcessorsToCatchUp = [], db = database, trace = []\<rparr>"

definition getSynchedBlockNumber :: "'n synchronizer \<Rightarrow> int" where
  "getSynchedBlockNumber s =
     (case blockNumber (db s) of Some n \<Rightarrow> n | None \<Rightarrow> initialSyncBlockNumber s)"

definition record_call :: "'n call \<Rightarrow> 'n synchronizer \<Rightarrow> 'n synchronizer" where
  "record_call c s = s\<lparr>trace := trace s @ [Call c]\<rparr>"

definition log_event :: "'n event \<Rightarrow> 'n synchronizer \<Rightarrow> 'n synchronizer" where
  "log_event e s = s\<lparr>trace := trace s @ [e]\<rparr>"

text \<open>
  Modelled from the spec: \<open>db.setBlockData\<close> is atomic, so a call that throws leaves
  the database as it was.
\<close>

definition db_setBlockData ::
  "'n env \<Rightarrow> int \<Rightarrow> block_header \<Rightarrow> 'n synchronizer \<Rightarrow> (error + unit) \<times> 'n synchronizer" where
  "db_setBlockData env n header s =
     (let s1 = record_call (SetBlockData n header) s in
      case throws env (SetBlockData n header) of
        Some e \<Rightarrow> (Inl e, s1)
      | None \<Rightarrow>
          (Inr (), s1\<lparr>db := (db s1)\<lparr>blockNumber := Some n, blockHeader := Some header\<rparr>\<rparr>))"

text \<open>
  \<open>initialSync\<close>. \<open>Promise.all\<close> starts both RPCs and rejects when one of them
  does; the block number is listed first.
\<close>

definition initialSync :: "'n env \<Rightarrow> 'n synchronizer \<Rightarrow> (error + unit) \<times> 'n synchronizer" where
  "initialSync env s =
     (case node_getBlockNumber env of
        Inl e \<Rightarrow> (Inl e, s)
      | Inr latestBlockNumber \<Rightarrow>
          (case node_getBlockHeader env of
             Inl e \<Rightarrow> (Inl e, s)
           | Inr latestBlockHeader \<Rightarrow>
               db_setBlockData env latestBlockNumber latestBlockHeader
                 (s\<lparr>initialSyncBlockNumber := latestBlockNumber\<rparr>)))"

definition start :: "'n env \<Rightarrow> 'n synchronizer \<Rightarrow> (error + unit) \<times> 'n synchronizer" where
  "start env s =
     (if running s then (Inr (), s)
      else
        (case initialSync env (s\<lparr>running := True\<rparr>) of
           (Inl e, s1) \<Rightarrow> (Inl e, s1)
         | (Inr u, s1) \<Rightarrow>
             (Inr (), log_event (Log ''Started loop'')
                        (log_event (Log ''Initial sync complete'') s1))))"

definition stop :: "'n synchronizer \<Rightarrow> 'n synchronizer" where
  "stop s = log_event (Log ''Stopped'') (s\<lparr>running := False\<rparr>)"

subsection \<open>Forward mode: \<open>work\<close>\<close>

text \<open>
  \<open>xs[xs.length - 1]\<close> and \<open>xs[i]\<close>: JavaScript answers \<open>undefined\<close> outside the
  array.
\<close>

definition js_last :: "'a list \<Rightarrow> 'a option" where
  "js_last xs = (if xs = [] then None else Some (last xs))"

definition js_at :: "'a list \<Rightarrow> nat \<Rightarrow> 'a option" where
  "js_at xs i = (if i < length xs then Some (xs ! i) else None)"

text \<open>
  Modelled from the spec: \<open>L2Block.attachLogs\<close> is not part of the sources at hand.
  It stores the bundle in the field of its log type, unless it throws.
\<close>

definition attachLogs ::
  "'n env \<Rightarrow> l2_block \<Rightarrow> l2_block_l2_logs option \<Rightarrow> log_type \<Rightarrow> error + l2_block" where
  "attachLogs env b logs t =
     (case attachLogs_throws env b logs t of
        Some e \<Rightarrow> Inl e
      | None \<Rightarrow>
          Inr (case t of
                 ENCRYPTED \<Rightarrow> b\<lparr>newEncryptedLogs := logs\<rparr>
               | UNENCRYPTED \<Rightarrow> b\<lparr>newUnencryptedLogs := logs\<rparr>))"

text \<open>The \<open>forEach\<close> of \<open>work\<close>: block \<open>i\<close> receives the logs at index \<open>i\<close>.\<close>

fun attach_each ::
  "'n env \<Rightarrow> l2_block_l2_logs list \<Rightarrow> l2_block_l2_logs list \<Rightarrow> nat \<Rightarrow> l2_block list
     \<Rightarrow> error + l2_block list" where
  "attach_each env encryptedLogs unencryptedLogs i [] = Inr []"
| "attach_each env encryptedLogs unencryptedLogs i (b # bs) =
     (case attachLogs env b (js_at encryptedLogs i) ENCRYPTED of
        Inl e \<Rightarrow> Inl e
      | Inr b1 \<Rightarrow>
          (case attachLogs env b1 (js_at unencryptedLogs i) UNENCRYPTED of
             Inl e \<Rightarrow> Inl e
           | Inr b2 \<Rightarrow>
               (case attach_each env encryptedLogs unencryptedLogs (Suc i) bs of
                  Inl e \<Rightarrow> Inl e
                | Inr bs' \<Rightarrow> Inr (b2 # bs'))))"

text \<open>
  Modelled from the spec: \<open>NoteProcessor.process\<close> is not part of the sources at
  hand. It persists the notes and deferred notes it decrypts from the batch and sets
  \<open>syncedToBlock\<close> to the number of the last block of the batch; a failure aborts the
  call and leaves \<open>syncedToBlock\<close> unchanged. It never writes the block data of the
  database. The spec requires a non-empty batch; on an empty one nothing is done here.
\<close>

definition process ::
  "'n env \<Rightarrow> note_processor \<Rightarrow> l2_block_context list \<Rightarrow> l2_block_l2_logs list
     \<Rightarrow> 'n synchronizer \<Rightarrow> (error + note_processor) \<times> 'n synchronizer" where
  "process env np blockContexts encryptedLogs s =
     (let c = Process (note_processor.publicKey np) blockContexts encryptedLogs;
          s1 = record_call c s
      in case throws env c of
           Some e \<Rightarrow> (Inl e, s1)
         | None \<Rightarrow>
             if blockContexts = [] then (Inr np, s1)
             else
               (case decrypted env (note_processor.publicKey np) blockContexts encryptedLogs of
                  (newNotes, deferred) \<Rightarrow>
                    (Inr (np\<lparr>syncedToBlock := number (block (last blockContexts))\<rparr>),
                     s1\<lparr>db := (db s1)\<lparr>storedNotes := storedNotes (db s1) @ newNotes,
                                      storedDeferredNotes :=
                                        storedDeferredNotes (db s1) @ deferred\<rparr>\<rparr>)))"

text \<open>
  The loop over \<open>this.noteProcessors\<close>: the result lists the processors as the loop
  leaves them, with the error that ended it, if any.
\<close>

fun process_each ::
  "'n env \<Rightarrow> l2_block_context list \<Rightarrow> l2_block_l2_logs list \<Rightarrow> note_processor list
     \<Rightarrow> 'n synchronizer \<Rightarrow> (error option \<times> note_processor list) \<times> 'n synchronizer" where
  "process_each env blockContexts encryptedLogs [] s = ((None, []), s)"
| "process_each env blockContexts encryptedLogs (np # nps) s =
     (case process env np blockContexts encryptedLogs s of
        (Inl e, s1) \<Rightarrow> ((Some e, np # nps), s1)
      | (Inr np1, s1) \<Rightarrow>
          (case process_each env blockContexts encryptedLogs nps s1 of
             ((r, nps1), s2) \<Rightarrow> ((r, np1 # nps1), s2)))"

text \<open>
  \<open>setBlockDataFromBlock\<close>. Its argument is \<open>undefined\<close> when the batch is empty,
  and destructuring \<open>undefined\<close> is a \<open>TypeError\<close>.
\<close>

definition setBlockDataFromBlock ::
  "'n env \<Rightarrow> l2_block_context option \<Rightarrow> 'n synchronizer \<Rightarrow> (error + unit) \<times> 'n synchronizer" where
  "setBlockDataFromBlock env latestBlock s =
     (case latestBlock of
        None \<Rightarrow> (Inl TypeError, s)
      | Some ctx \<Rightarrow>
          (let b = block ctx in
           if number b < initialSyncBlockNumber s then (Inr (), s)
           else
             (let globalsHash = computeGlobalsHash env (globalVariables (block ctx));
                  header =
                    \<lparr>noteHashTreeRoot = endNoteHashTreeSnapshot_root b,
                     nullifierTreeRoot = endNullifierTreeSnapshot_root b,
                     contractTreeRoot = endContractTreeSnapshot_root b,
                     l1ToL2MessagesTreeRoot = endL1ToL2MessageTreeSnapshot_root b,
                     archiveRoot = endArchiveSnapshot_root b,
                     privateKernelVkTreeRoot = 0,
                     publicDataTreeRoot = endPublicDataTreeSnapshot_root b,
                     globalVariablesHash = globalsHash\<rparr>
              in db_setBlockData env (number b) header s)))"

text \<open>
  The body of the \<open>try\<close> of \<open>work\<close>, with \<open>fromBlock\<close> for the source's
  \<open>from\<close>. The state it returns with an error is the state at the \<open>throw\<close>.
\<close>

definition work_try ::
  "'n env \<Rightarrow> int \<Rightarrow> int \<Rightarrow> 'n synchronizer \<Rightarrow> (error + bool) \<times> 'n synchronizer" where
  "work_try env fromBlock limit s =
     (case node_getLogs env fromBlock limit ENCRYPTED of
        Inl e \<Rightarrow> (Inl e, s)
      | Inr encryptedLogs0 \<Rightarrow>
     if length encryptedLogs0 = 0 then (Inr False, s) else
     (case node_getLogs env fromBlock limit UNENCRYPTED of
        Inl e \<Rightarrow> (Inl e, s)
      | Inr unencryptedLogs0 \<Rightarrow>
     if length unencryptedLogs0 = 0 then (Inr False, s) else
     (case node_getBlocks env fromBlock (int (length encryptedLogs0)) of
        Inl e \<Rightarrow> (Inl e, s)
      | Inr blocks0 \<Rightarrow>
     if length blocks0 = 0 then (Inr False, s) else
     (let encryptedLogs =
            (if length blocks0 \<noteq> length encryptedLogs0
             then take (length blocks0) encryptedLogs0 else encryptedLogs0);
          unencryptedLogs =
            (if length blocks0 \<noteq> length unencryptedLogs0
             then take (length blocks0) unencryptedLogs0 else unencryptedLogs0)
      in
     (case attach_each env encryptedLogs unencryptedLogs 0 blocks0 of
        Inl e \<Rightarrow> (Inl e, s)
      | Inr blocks \<Rightarrow>
     (let blockContexts =
            map (\<lambda>b. \<lparr>block = b\<rparr>) (filter (\<lambda>b. number b \<ge> fromBlock) blocks);
          latestBlock = js_last blockContexts
      in
     (case setBlockDataFromBlock env latestBlock s of
        (Inl e, s1) \<Rightarrow> (Inl e, s1)
      | (Inr u, s1) \<Rightarrow>
     (let logCount = getTotalLogCount encryptedLogs;
          s2 = log_event (LogForwarding logCount (length (noteProcessors s1))) s1
      in
     (case process_each env blockContexts encryptedLogs (noteProcessors s2) s2 of
        ((r, nps), s3) \<Rightarrow>
          (let s4 = s3\<lparr>noteProcessors := nps\<rparr> in
           case r of Some e \<Rightarrow> (Inl e, s4) | None \<Rightarrow> (Inr True, s4)))))))))))"

definition work :: "'n env \<Rightarrow> int \<Rightarrow> 'n synchronizer \<Rightarrow> bool \<times> 'n synchronizer" where
  "work env limit s =
     (let fromBlock = getSynchedBlockNumber s + 1 in
      case work_try env fromBlock limit s of
        (Inl err, s1) \<Rightarrow>
          (False, log_event (LogError ''Error in synchronizer work'' err) s1)
      | (Inr r, s1) \<Rightarrow> (r, s1))"

subsection \<open>Catch-up mode: \<open>workNoteProcessorCatchUp\<close>\<close>

text \<open>
  The body of the \<open>try\<close> of \<open>workNoteProcessorCatchUp\<close>. The processor is the
  head of the catch-up list; \<open>process\<close> changes it in place, so its new state is
  written back to the head of the list. \<open>db.estimateSize\<close> is called while the
  arguments of the caught-up log entry are evaluated.
\<close>

definition catchUp_try ::
  "'n env \<Rightarrow> note_processor \<Rightarrow> int \<Rightarrow> int \<Rightarrow> int \<Rightarrow> 'n synchronizer
     \<Rightarrow> (error + bool) \<times> 'n synchronizer" where
  "catchUp_try env noteProcessor fromBlock limit toBlockNumber s =
     (case node_getLogs env fromBlock limit ENCRYPTED of
        Inl e \<Rightarrow> (Inl e, s)
      | Inr encryptedLogs0 \<Rightarrow>
     if length encryptedLogs0 = 0
     then (Inl (Error ''No encrypted logs in processor catch up mode''), s) else
     (case node_getBlocks env fromBlock (int (length encryptedLogs0)) of
        Inl e \<Rightarrow> (Inl e, s)
      | Inr blocks \<Rightarrow>
     if length blocks = 0
     then (Inl (Error ''No blocks in processor catch up mode''), s) else
     (let encryptedLogs =
            (if length blocks \<noteq> length encryptedLogs0
             then take (length blocks) encryptedLogs0 else encryptedLogs0);
          blockContexts = map (\<lambda>b. \<lparr>block = b\<rparr>) blocks;
          logCount = getTotalLogCount encryptedLogs;
          s1 = log_event (LogForwardingCatchUp logCount) s
      in
     (case process env noteProcessor blockContexts encryptedLogs s1 of
        (Inl e, s2) \<Rightarrow> (Inl e, s2)
      | (Inr np1, s2) \<Rightarrow>
     (let s3 = s2\<lparr>noteProcessorsToCatchUp := np1 # tl (noteProcessorsToCatchUp s2)\<rparr> in
      if syncedToBlock np1 = toBlockNumber then
        (let s4 = record_call EstimateSize s3 in
         case throws env EstimateSize of
           Some e \<Rightarrow> (Inl e, s4)
         | None \<Rightarrow>
             (let s5 = log_event (NoteProcessorCaughtUp (note_processor.publicKey np1)) s4
              in (Inr True,
                  s5\<lparr>noteProcessorsToCatchUp := tl (noteProcessorsToCatchUp s5),
                     noteProcessors := noteProcessors s5 @ [np1]\<rparr>)))
      else (Inr True, s3))))))"

text \<open>
  \<open>workNoteProcessorCatchUp\<close>. Reading \<open>status\<close> of the head of an empty list is
  a \<open>TypeError\<close>; it and the error for a limit below one are thrown before the
  \<open>try\<close> and reach the caller. The message of the latter also carries the limit.
\<close>

definition workNoteProcessorCatchUp ::
  "'n env \<Rightarrow> int \<Rightarrow> 'n synchronizer \<Rightarrow> (error + bool) \<times> 'n synchronizer" where
  "workNoteProcessorCatchUp env limit0 s =
     (case noteProcessorsToCatchUp s of
        [] \<Rightarrow> (Inl TypeError, s)
      | noteProcessor # others \<Rightarrow>
          (let toBlockNumber = getSynchedBlockNumber s in
           if syncedToBlock noteProcessor \<ge> toBlockNumber then
             (Inr True,
              s\<lparr>noteProcessorsToCatchUp := others,
                noteProcessors := noteProcessors s @ [noteProcessor]\<rparr>)
           else
             (let fromBlock = syncedToBlock noteProcessor + 1;
                  limit = min limit0 (toBlockNumber - fromBlock + 1)
              in
              if limit < 1
              then (Inl (Error ''Unexpected limit for note processor catch up''), s)
              else
                (case catchUp_try env noteProcessor fromBlock limit toBlockNumber s of
                   (Inl err, s1) \<Rightarrow>
                     (Inr False,
                      log_event
                        (LogError ''Error in synchronizer workNoteProcessorCatchUp'' err) s1)
                 | (Inr r, s1) \<Rightarrow> (Inr r, s1)))))"

subsection \<open>Accounts and status\<close>

definition addAccount ::
  "public_key \<Rightarrow> key_store \<Rightarrow> int \<Rightarrow> 'n synchronizer \<Rightarrow> 'n synchronizer" where
  "addAccount pk ks startingBlock s =
     (let predicate = (\<lambda>p. note_processor.publicKey p = pk);
          processor =
            (case find predicate (noteProcessors s) of
               Some p \<Rightarrow> Some p
             | None \<Rightarrow> find predicate (noteProcessorsToCatchUp s))
      in case processor of
           Some p \<Rightarrow> s
         | None \<Rightarrow>
             s\<lparr>noteProcessorsToCatchUp :=
                 noteProcessorsToCatchUp s @ [new_NoteProcessor pk ks startingBlock]\<rparr>)"

text \<open>
  \<open>getSyncStatus\<close>. \<open>Object.fromEntries\<close> sets the properties in the order of
  the entries, so a later entry with the same key replaces an earlier one. The other two
  queries, \<open>isGlobalStateSynchronized\<close> and \<open>isAccountStateSynchronized\<close>, only
  read the state and are not used below.
\<close>

definition fromEntries :: "('k \<times> 'v) list \<Rightarrow> ('k \<rightharpoonup> 'v)" where
  "fromEntries entries = foldl (\<lambda>m (k, v). m(k \<mapsto> v)) Map.empty entries"

record sync_status =
  blocks :: int
  notes_by_key :: "string \<rightharpoonup> int"

definition getSyncStatus :: "'n env \<Rightarrow> 'n synchronizer \<Rightarrow> sync_status" where
  "getSyncStatus env s =
     (let lastBlockNumber = getSynchedBlockNumber s in
      \<lparr>blocks = lastBlockNumber,
       notes_by_key =
         fromEntries
           (map (\<lambda>n. (toString env (note_processor.publicKey n), syncedToBlock n))
              (noteProcessors s))\<rparr>)"

subsection \<open>Deferred notes: \<open>reprocessDeferredNotesForContract\<close>\<close>

text \<open>
  A JavaScript \<open>Map\<close> keyed by objects: a key is the address of the object with its
  value, two keys are the same when their addresses are, and the entries keep the order
  in which their keys were first set. \<open>map_push key v m\<close> is the source's
  \<open>get(key) ?? []\<close>, \<open>push(v)\<close>, \<open>set(key, ...)\<close>.
\<close>

fun map_push ::
  "nat \<times> 'k \<Rightarrow> 'v \<Rightarrow> ((nat \<times> 'k) \<times> 'v list) list \<Rightarrow> ((nat \<times> 'k) \<times> 'v list) list" where
  "map_push key v [] = [(key, [v])]"
| "map_push key v ((key', vs) # m) =
     (if fst key = fst key' then (key', vs @ [v]) # m
      else (key', vs) # map_push key v m)"

definition group_by :: "('v \<Rightarrow> nat \<times> 'k) \<Rightarrow> 'v list \<Rightarrow> ((nat \<times> 'k) \<times> 'v list) list" where
  "group_by key_of vs = foldl (\<lambda>m v. map_push (key_of v) v m) [] vs"

text \<open>
  Modelled from the spec: the operations of the database on notes and deferred notes.
  Each is atomic: recorded, then either it throws and changes nothing, or it takes
  effect.
\<close>

definition db_getDeferredNotesByContract ::
  "'n env \<Rightarrow> aztec_address \<Rightarrow> 'n synchronizer
     \<Rightarrow> (error + 'n deferred_note_ref list) \<times> 'n synchronizer" where
  "db_getDeferredNotesByContract env address s =
     (let s1 = record_call (GetDeferredNotesByContract address) s in
      case throws env (GetDeferredNotesByContract address) of
        Some e \<Rightarrow> (Inl e, s1)
      | None \<Rightarrow>
          (Inr (filter (\<lambda>d. deferred_note_dao.contractAddress d = address)
                  (storedDeferredNotes (db s1))), s1))"

definition db_removeDeferredNotesByContract ::
  "'n env \<Rightarrow> aztec_address \<Rightarrow> 'n synchronizer \<Rightarrow> (error + unit) \<times> 'n synchronizer" where
  "db_removeDeferredNotesByContract env address s =
     (let s1 = record_call (RemoveDeferredNotesByContract address) s in
      case throws env (RemoveDeferredNotesByContract address) of
        Some e \<Rightarrow> (Inl e, s1)
      | None \<Rightarrow>
          (Inr (),
           s1\<lparr>db := (db s1)\<lparr>storedDeferredNotes :=
                 filter (\<lambda>d. deferred_note_dao.contractAddress d \<noteq> address)
                   (storedDeferredNotes (db s1))\<rparr>\<rparr>))"

definition db_addNotes ::
  "'n env \<Rightarrow> 'n note_dao list \<Rightarrow> 'n synchronizer \<Rightarrow> (error + unit) \<times> 'n synchronizer" where
  "db_addNotes env newNotes s =
     (let s1 = record_call (AddNotes newNotes) s in
      case throws env (AddNotes newNotes) of
        Some e \<Rightarrow> (Inl e, s1)
      | None \<Rightarrow>
          (Inr (), s1\<lparr>db := (db s1)\<lparr>storedNotes := storedNotes (db s1) @ newNotes\<rparr>\<rparr>))"

definition db_removeNullifiedNotes ::
  "'n env \<Rightarrow> fr list \<Rightarrow> public_key \<Rightarrow> 'n synchronizer \<Rightarrow> (error + unit) \<times> 'n synchronizer" where
  "db_removeNullifiedNotes env nullifiers pk s =
     (let s1 = record_call (RemoveNullifiedNotes nullifiers pk) s in
      case throws env (RemoveNullifiedNotes nullifiers pk) of
        Some e \<Rightarrow> (Inl e, s1)
      | None \<Rightarrow>
          (Inr (),
           s1\<lparr>db := (db s1)\<lparr>storedNotes :=
                 filter (\<lambda>n. \<not> (note_dao.publicKey n = pk
                                \<and> siloedNullifier n \<in> set nullifiers))
                   (storedNotes (db s1))\<rparr>\<rparr>))"

text \<open>
  Modelled from the spec: \<open>NoteProcessor.decodeDeferredNotes\<close> is not part of the
  sources at hand. It answers the notes it decodes and leaves the processor as it is.
\<close>

definition decodeDeferredNotes ::
  "'n env \<Rightarrow> note_processor \<Rightarrow> 'n deferred_note_ref list \<Rightarrow> 'n synchronizer
     \<Rightarrow> (error + 'n note_dao list) \<times> 'n synchronizer" where
  "decodeDeferredNotes env processor ds s =
     (let c = DecodeDeferredNotes (note_processor.publicKey processor) ds;
          s1 = record_call c s
      in case throws env c of
           Some e \<Rightarrow> (Inl e, s1)
         | None \<Rightarrow> (Inr (decoded env (note_processor.publicKey processor) ds), s1))"

text \<open>The inner loop: every note processor tries the deferred notes of one transaction.\<close>

fun decode_each_processor ::
  "'n env \<Rightarrow> 'n deferred_note_ref list \<Rightarrow> note_processor list \<Rightarrow> 'n synchronizer
     \<Rightarrow> (error + 'n note_dao list) \<times> 'n synchronizer" where
  "decode_each_processor env ds [] s = (Inr [], s)"
| "decode_each_processor env ds (processor # ps) s =
     (case decodeDeferredNotes env processor
             (filter (\<lambda>n. deferred_note_dao.publicKey n = note_processor.publicKey processor) ds) s of
        (Inl e, s1) \<Rightarrow> (Inl e, s1)
      | (Inr decodedNotes, s1) \<Rightarrow>
          (case decode_each_processor env ds ps s1 of
             (Inl e, s2) \<Rightarrow> (Inl e, s2)
           | (Inr laterNotes, s2) \<Rightarrow> (Inr (decodedNotes @ laterNotes), s2)))"

text \<open>The outer loop, over the values of \<open>txHashToDeferredNotes\<close>.\<close>

fun decode_each_tx ::
  "'n env \<Rightarrow> ((nat \<times> tx_hash) \<times> 'n deferred_note_ref list) list \<Rightarrow> 'n synchronizer
     \<Rightarrow> (error + 'n note_dao list) \<times> 'n synchronizer" where
  "decode_each_tx env [] s = (Inr [], s)"
| "decode_each_tx env ((key, ds) # groups) s =
     (case decode_each_processor env ds (noteProcessors s) s of
        (Inl e, s1) \<Rightarrow> (Inl e, s1)
      | (Inr decodedNotes, s1) \<Rightarrow>
          (case decode_each_tx env groups s1 of
             (Inl e, s2) \<Rightarrow> (Inl e, s2)
           | (Inr laterNotes, s2) \<Rightarrow> (Inr (decodedNotes @ laterNotes), s2)))"

text \<open>
  The test \<open>if (found)\<close> on the answer of \<open>findLeafIndex\<close>: \<open>undefined\<close> is falsy,
  and so is the bigint \<open>0n\<close>.
\<close>

definition truthy :: "nat option \<Rightarrow> bool" where
  "truthy found = (case found of None \<Rightarrow> False | Some i \<Rightarrow> i \<noteq> 0)"

text \<open>The loop over the nullifiers of one group; the result is \<open>relevantNullifiers\<close>.\<close>

fun find_relevant :: "'n env \<Rightarrow> fr list \<Rightarrow> error + fr list" where
  "find_relevant env [] = Inr []"
| "find_relevant env (nullifier # nullifiers) =
     (case node_findLeafIndex env nullifier of
        Inl e \<Rightarrow> Inl e
      | Inr found \<Rightarrow>
          (case find_relevant env nullifiers of
             Inl e \<Rightarrow> Inl e
           | Inr relevant \<Rightarrow>
               Inr (if truthy found then nullifier # relevant else relevant)))"

text \<open>The final loop, over the entries of \<open>publicKeyToNotes\<close>.\<close>

fun remove_nullified ::
  "'n env \<Rightarrow> ((nat \<times> public_key) \<times> 'n note_dao list) list \<Rightarrow> 'n synchronizer
     \<Rightarrow> (error + unit) \<times> 'n synchronizer" where
  "remove_nullified env [] s = (Inr (), s)"
| "remove_nullified env ((key, ns) # groups) s =
     (case find_relevant env (map siloedNullifier ns) of
        Inl e \<Rightarrow> (Inl e, s)
      | Inr relevantNullifiers \<Rightarrow>
          (case db_removeNullifiedNotes env relevantNullifiers (snd key) s of
             (Inl e, s1) \<Rightarrow> (Inl e, s1)
           | (Inr u, s1) \<Rightarrow> remove_nullified env groups s1))"

definition reprocessDeferredNotesForContract ::
  "'n env \<Rightarrow> aztec_address \<Rightarrow> 'n synchronizer \<Rightarrow> (error + unit) \<times> 'n synchronizer" where
  "reprocessDeferredNotesForContract env address s =
     (case db_getDeferredNotesByContract env address s of
        (Inl e, s1) \<Rightarrow> (Inl e, s1)
      | (Inr deferred, s1) \<Rightarrow>
     (let txHashToDeferredNotes =
            group_by (\<lambda>d. (txHash_ref d, deferred_note_dao.txHash d)) deferred
      in
     (case decode_each_tx env txHashToDeferredNotes s1 of
        (Inl e, s2) \<Rightarrow> (Inl e, s2)
      | (Inr newNotes, s2) \<Rightarrow>
     (case db_removeDeferredNotesByContract env address s2 of
        (Inl e, s3) \<Rightarrow> (Inl e, s3)
      | (Inr u, s3) \<Rightarrow>
     (case db_addNotes env newNotes s3 of
        (Inl e, s4) \<Rightarrow> (Inl e, s4)
      | (Inr u, s4) \<Rightarrow>
     (let s5 = s4\<lparr>trace := trace s4
                   @ map (\<lambda>n. LogDecoded (note_dao.contractAddress n)
                                 (note_dao.storageSlot n) (siloedNullifier n)) newNotes\<rparr>;
          publicKeyToNotes =
            group_by (\<lambda>n. (publicKey_ref n, note_dao.publicKey n)) newNotes
      in remove_nullified env publicKeyToNotes s5))))))"

subsection \<open>Sequences of operations\<close>

text \<open>
  The operations of the synchronizer that change its state, and a run: a list of
  operations, each with the environment it meets. \<open>exec\<close> keeps the state an
  operation leaves, whether it returns or throws. The loop of \<open>sync\<close> is any
  sequence of \<open>Work\<close> and \<open>WorkNoteProcessorCatchUp\<close> steps.
\<close>

datatype op =
    Start
  | Stop
  | InitialSync
  | Work int
  | WorkNoteProcessorCatchUp int
  | AddAccount public_key key_store int
  | ReprocessDeferredNotesForContract aztec_address

fun exec :: "'n env \<Rightarrow> op \<Rightarrow> 'n synchronizer \<Rightarrow> 'n synchronizer" where
  "exec env Start s = snd (start env s)"
| "exec env Stop s = stop s"
| "exec env InitialSync s = snd (initialSync env s)"
| "exec env (Work limit) s = snd (work env limit s)"
| "exec env (WorkNoteProcessorCatchUp limit) s = snd (workNoteProcessorCatchUp env limit s)"
| "exec env (AddAccount pk ks startingBlock) s = addAccount pk ks startingBlock s"
| "exec env (ReprocessDeferredNotesForContract a) s =
     snd (reprocessDeferredNotesForContract env a s)"

fun run :: "('n env \<times> op) list \<Rightarrow> 'n synchronizer \<Rightarrow> 'n synchronizer" where
  "run [] s = s"
| "run ((env, operation) # steps) s = run steps (exec env operation s)"

section \<open>Observations\<close>

text \<open>
  What the statements below read off a trace: the \<open>process\<close> calls it records,
  with their arguments, the \<open>removeNullifiedNotes\<close> calls and the
  \<open>setBlockData\<close> calls.
\<close>

fun process_calls ::
  "'n event list \<Rightarrow> (public_key \<times> l2_block_context list \<times> l2_block_l2_logs list) list" where
  "process_calls [] = []"
| "process_calls (Call (Process pk c l) # es) = (pk, c, l) # process_calls es"
| "process_calls (e # es) = process_calls es"

fun removeNullifiedNotes_calls :: "'n event list \<Rightarrow> (fr list \<times> public_key) list" where
  "removeNullifiedNotes_calls [] = []"
| "removeNullifiedNotes_calls (Call (RemoveNullifiedNotes nullifiers pk) # es) =
     (nullifiers, pk) # removeNullifiedNotes_calls es"
| "removeNullifiedNotes_calls (e # es) = removeNullifiedNotes_calls es"

fun setBlockData_calls :: "'n event list \<Rightarrow> (int \<times> block_header) list" where
  "setBlockData_calls [] = []"
| "setBlockData_calls (Call (SetBlockData n h) # es) = (n, h) # setBlockData_calls es"
| "setBlockData_calls (e # es) = setBlockData_calls es"

text \<open>
  The answers of the node with which \<open>work\<close> gets past its three early returns:
  \<open>getLogs\<close> answers \<open>enc\<close> and \<open>unenc\<close>, \<open>getBlocks\<close>, asked for as many
  blocks as there are encrypted log bundles, answers \<open>bs\<close>, and none of the three is
  empty. \<open>header_of\<close> is the header that \<open>setBlockDataFromBlock\<close> builds from a
  block.
\<close>

definition fetched ::
  "'n env \<Rightarrow> int \<Rightarrow> int \<Rightarrow> l2_block_l2_logs list \<Rightarrow> l2_block_l2_logs list \<Rightarrow> l2_block list
     \<Rightarrow> bool" where
  "fetched env fromBlock limit enc unenc bs =
     (node_getLogs env fromBlock limit ENCRYPTED = Inr enc \<and> enc \<noteq> []
      \<and> node_getLogs env fromBlock limit UNENCRYPTED = Inr unenc \<and> unenc \<noteq> []
      \<and> node_getBlocks env fromBlock (int (length enc)) = Inr bs \<and> bs \<noteq> [])"

definition header_of :: "'n env \<Rightarrow> l2_block \<Rightarrow> block_header" where
  "header_of env b =
     \<lparr>noteHashTreeRoot = endNoteHashTreeSnapshot_root b,
      nullifierTreeRoot = endNullifierTreeSnapshot_root b,
      contractTreeRoot = endContractTreeSnapshot_root b,
      l1ToL2MessagesTreeRoot = endL1ToL2MessageTreeSnapshot_root b,
      archiveRoot = endArchiveSnapshot_root b,
      privateKernelVkTreeRoot = 0,
      publicDataTreeRoot = endPublicDataTreeSnapshot_root b,
      globalVariablesHash = computeGlobalsHash env (globalVariables b)\<rparr>"

text \<open>The nullifiers for which \<open>if (found)\<close> takes the branch.\<close>

definition nullifier_found :: "'n env \<Rightarrow> fr \<Rightarrow> bool" where
  "nullifier_found env nullifier =
     (case node_findLeafIndex env nullifier of Inl e \<Rightarrow> False | Inr found \<Rightarrow> truthy found)"

definition only_found_removed :: "'n env \<Rightarrow> 'n event list \<Rightarrow> bool" where
  "only_found_removed env tr =
     (\<forall>(nullifiers, pk) \<in> set (removeNullifiedNotes_calls tr).
        \<forall>n \<in> set nullifiers. nullifier_found env n)"

text \<open>
  Two states that differ at most in the stored notes, the stored deferred notes and the
  trace.
\<close>

definition unchanged_but_notes :: "'n synchronizer \<Rightarrow> 'n synchronizer \<Rightarrow> bool" where
  "unchanged_but_notes s s' =
     (noteProcessors s' = noteProcessors s
      \<and> noteProcessorsToCatchUp s' = noteProcessorsToCatchUp s
      \<and> running s' = running s
      \<and> initialSyncBlockNumber s' = initialSyncBlockNumber s
      \<and> blockNumber (db s') = blockNumber (db s)
      \<and> blockHeader (db s') = blockHeader (db s))"

text \<open>
  The order of the block number of the database: absent is below every number.
  \<open>runs_initialSync\<close> tells the operations that execute \<open>initialSync\<close>,
  \<open>node_ahead\<close> that the latest block number the node reports is not below the block
  number of the database, and \<open>node_ahead_run\<close> that this holds whenever a run
  executes \<open>initialSync\<close>. \<open>states\<close> lists the states a run goes through.
\<close>

definition cursor_le :: "int option \<Rightarrow> int option \<Rightarrow> bool" where
  "cursor_le a b =
     (case a of None \<Rightarrow> True
      | Some m \<Rightarrow> (case b of None \<Rightarrow> False | Some n \<Rightarrow> m \<le> n))"

definition runs_initialSync :: "op \<Rightarrow> 'n synchronizer \<Rightarrow> bool" where
  "runs_initialSync operation s =
     (operation = InitialSync \<or> (operation = Start \<and> \<not> running s))"

definition node_ahead :: "'n env \<Rightarrow> 'n synchronizer \<Rightarrow> bool" where
  "node_ahead env s =
     (case node_getBlockNumber env of
        Inl e \<Rightarrow> True
      | Inr latest \<Rightarrow> cursor_le (blockNumber (db s)) (Some latest))"

fun node_ahead_run :: "('n env \<times> op) list \<Rightarrow> 'n synchronizer \<Rightarrow> bool" where
  "node_ahead_run [] s = True"
| "node_ahead_run ((env, operation) # steps) s =
     ((runs_initialSync operation s \<longrightarrow> node_ahead env s)
      \<and> node_ahead_run steps (exec env operation s))"

fun states :: "('n env \<times> op) list \<Rightarrow> 'n synchronizer \<Rightarrow> 'n synchronizer list" where
  "states [] s = [s]"
| "states ((env, operation) # steps) s = s # states steps (exec env operation s)"

section \<open>Example values\<close>

text \<open>
  Two accounts, an empty database, blocks that differ in their number only, and a node
  whose latest block is block 5 and that has nothing else to offer; the other
  environments change it in one respect each. The note of a deferred note is a vector
  of field elements here, written and read as a \<open>Vector\<close>.
\<close>

definition pk1 :: public_key where
  "pk1 = \<lparr>point_x = 1, point_y = 2\<rparr>"

definition pk2 :: public_key where
  "pk2 = \<lparr>point_x = 3, point_y = 4\<rparr>"

definition empty_db :: "(fr list) pxe_database" where
  "empty_db =
     \<lparr>blockNumber = None, blockHeader = None, storedNotes = [], storedDeferredNotes = []\<rparr>"

definition example_header :: block_header where
  "example_header =
     \<lparr>noteHashTreeRoot = 1, nullifierTreeRoot = 2, contractTreeRoot = 3,
      l1ToL2MessagesTreeRoot = 4, archiveRoot = 5, privateKernelVkTreeRoot = 0,
      publicDataTreeRoot = 6, globalVariablesHash = 7\<rparr>"

definition example_block :: "int \<Rightarrow> l2_block" where
  "example_block n =
     \<lparr>number = n, globalVariables = [], endNoteHashTreeSnapshot_root = 1,
      endNullifierTreeSnapshot_root = 2, endContractTreeSnapshot_root = 3,
      endL1ToL2MessageTreeSnapshot_root = 4, endArchiveSnapshot_root = 5,
      endPublicDataTreeSnapshot_root = 6, newEncryptedLogs = None,
      newUnencryptedLogs = None\<rparr>"

definition idle_env :: "(fr list) env" where
  "idle_env =
     \<lparr>node_getBlockNumber = Inr 5, node_getBlockHeader = Inr example_header,
      node_getLogs = (\<lambda>f l t. Inr []), node_getBlocks = (\<lambda>f l. Inr []),
      node_findLeafIndex = (\<lambda>n. Inr None), throws = (\<lambda>c. None),
      attachLogs_throws = (\<lambda>b l t. None), decrypted = (\<lambda>pk c l. ([], [])),
      decoded = (\<lambda>pk ds. []), computeGlobalsHash = (\<lambda>g. 7),
      toString = (\<lambda>p. [])\<rparr>"

text \<open>The node has block 6, with one log bundle of each type.\<close>

definition one_block_env :: "(fr list) env" where
  "one_block_env = idle_env\<lparr>
     node_getLogs := (\<lambda>f l t. if f = 6 then Inr [[]] else Inr []),
     node_getBlocks := (\<lambda>f l. if f = 6 then Inr [example_block 6] else Inr [])\<rparr>"

text \<open>As before, and every \<open>process\<close> call fails on a database write.\<close>

definition process_fails_env :: "(fr list) env" where
  "process_fails_env = one_block_env\<lparr>
     throws := (\<lambda>c. case c of Process pk ctxs logs \<Rightarrow> Some (DatabaseError ''addNotes'')
                              | _ \<Rightarrow> None)\<rparr>"

text \<open>The node is unreachable for \<open>getLogs\<close>.\<close>

definition rpc_down_env :: "(fr list) env" where
  "rpc_down_env = idle_env\<lparr>node_getLogs := (\<lambda>f l t. Inl (NodeError ''timeout''))\<rparr>"

text \<open>
  The node returns five log bundles of each type from block 6 on, but only three
  blocks.
\<close>

definition five_logs :: "l2_block_l2_logs list" where
  "five_logs = [[[[1]]], [[[2]]], [[[3]]], [[[4]]], [[[5]]]]"

definition five_logs_env :: "(fr list) env" where
  "five_logs_env = idle_env\<lparr>
     node_getLogs := (\<lambda>f l t. if f = 6 then Inr five_logs else Inr []),
     node_getBlocks :=
       (\<lambda>f l. if f = 6 then Inr [example_block 6, example_block 7, example_block 8]
               else Inr [])\<rparr>"

text \<open>Asked for blocks from 6 on, the node answers with blocks 5 and 6.\<close>

definition stale_block_env :: "(fr list) env" where
  "stale_block_env = idle_env\<lparr>
     node_getLogs := (\<lambda>f l t. if f = 6 then Inr (take 3 five_logs) else Inr []),
     node_getBlocks :=
       (\<lambda>f l. if f = 6 then Inr [example_block 5, example_block 6] else Inr [])\<rparr>"

definition setBlockData_fails_env :: "(fr list) env" where
  "setBlockData_fails_env = five_logs_env\<lparr>
     throws := (\<lambda>c. case c of SetBlockData n h \<Rightarrow> Some (DatabaseError ''setBlockData'')
                              | _ \<Rightarrow> None)\<rparr>"

text \<open>
  The node of \<open>five_logs_env\<close> with one failure each: \<open>getLogs\<close> fails for the
  unencrypted logs, \<open>getBlocks\<close> fails, \<open>attachLogs\<close> throws. In
  \<open>only_stale_env\<close> the node, asked for blocks from 6 on, answers with block 5
  alone. \<open>attached_block n i\<close> is block \<open>n\<close> with the log bundles at index \<open>i\<close>
  attached.
\<close>

definition unenc_down_env :: "(fr list) env" where
  "unenc_down_env = five_logs_env\<lparr>
     node_getLogs := (\<lambda>f l t. case t of ENCRYPTED \<Rightarrow> Inr five_logs
                                        | UNENCRYPTED \<Rightarrow> Inl (NodeError ''timeout''))\<rparr>"

definition blocks_down_env :: "(fr list) env" where
  "blocks_down_env = five_logs_env\<lparr>node_getBlocks := (\<lambda>f l. Inl (NodeError ''timeout''))\<rparr>"

definition attach_fails_env :: "(fr list) env" where
  "attach_fails_env = five_logs_env\<lparr>
     attachLogs_throws := (\<lambda>b l t. Some (Error ''attachLogs''))\<rparr>"

definition only_stale_env :: "(fr list) env" where
  "only_stale_env = idle_env\<lparr>
     node_getLogs := (\<lambda>f l t. if f = 6 then Inr (take 3 five_logs) else Inr []),
     node_getBlocks := (\<lambda>f l. if f = 6 then Inr [example_block 5] else Inr [])\<rparr>"

definition attached_block :: "int \<Rightarrow> nat \<Rightarrow> l2_block" where
  "attached_block n i =
     (example_block n)\<lparr>newEncryptedLogs := Some (five_logs ! i),
                        newUnencryptedLogs := Some (five_logs ! i)\<rparr>"

text \<open>The node is at block 9 and the database refuses \<open>setBlockData\<close>.\<close>

definition restart_env :: "(fr list) env" where
  "restart_env = idle_env\<lparr>
     node_getBlockNumber := Inr 9,
     throws := (\<lambda>c. case c of SetBlockData n h \<Rightarrow> Some (DatabaseError ''setBlockData'')
                              | _ \<Rightarrow> None)\<rparr>"

text \<open>
  States of a synchronizer started against \<open>idle_env\<close>: an account added from block
  6 on, before and after its promotion, and an account added from block 1 on.
\<close>

definition synced_account :: "(fr list) synchronizer" where
  "synced_account =
     run [(idle_env, Start), (idle_env, AddAccount pk1 0 6)] (new_Synchronizer 1 empty_db)"

definition caught_up_account :: "(fr list) synchronizer" where
  "caught_up_account =
     run [(idle_env, Start), (idle_env, AddAccount pk1 0 6),
          (idle_env, WorkNoteProcessorCatchUp 1)] (new_Synchronizer 1 empty_db)"

definition lagging_account :: "(fr list) synchronizer" where
  "lagging_account =
     run [(idle_env, Start), (idle_env, AddAccount pk1 0 1)] (new_Synchronizer 1 empty_db)"

text \<open>
  The state after an \<open>initialSync\<close> against \<open>restart_env\<close>: the database is still
  at block 5, \<open>initialSyncBlockNumber\<close> is 9.
\<close>

definition late_start_account :: "(fr list) synchronizer" where
  "late_start_account = exec restart_env InitialSync caught_up_account"

definition one_account :: "(fr list) synchronizer" where
  "one_account = addAccount pk1 0 1 (new_Synchronizer 1 empty_db)"

definition example_steps :: "((fr list) env \<times> op) list" where
  "example_steps =
     [(idle_env, Start), (idle_env, AddAccount pk1 0 6), (idle_env, WorkNoteProcessorCatchUp 1),
      (one_block_env, Work 1)]"

definition two_accounts_steps :: "((fr list) env \<times> op) list" where
  "two_accounts_steps =
     [(idle_env, Start), (idle_env, AddAccount pk1 0 6), (idle_env, WorkNoteProcessorCatchUp 1),
      (idle_env, AddAccount pk2 0 1)]"

definition named_env :: "(fr list) env" where
  "named_env = idle_env\<lparr>
     toString :=
       (\<lambda>p. if p = pk1 then ''0x0102'' else if p = pk2 then ''0x0304'' else ''0x'')\<rparr>"

definition example_deferred_note :: "(fr list) deferred_note_dao" where
  "example_deferred_note =
     \<lparr>deferred_note_dao.publicKey = \<lparr>point_x = 1, point_y = 2\<rparr>,
      deferred_note_dao.the_note = [5, 6],
      deferred_note_dao.contractAddress = 3,
      deferred_note_dao.storageSlot = 4,
      deferred_note_dao.txHash = 77,
      txNullifier = 78,
      newCommitments = [7, 8, 9],
      dataStartIndexForTx = 64\<rparr>"

text \<open>
  A deferred note of contract 3 in the database, the two notes a processor decodes from
  it, and a node whose nullifier tree holds the nullifier 100 at leaf 0 and the
  nullifier 200 at leaf 7.
\<close>

definition example_deferred_ref :: "(fr list) deferred_note_ref" where
  "example_deferred_ref =
     \<lparr>deferred_note_dao.publicKey = pk1,
      deferred_note_dao.the_note = [5, 6],
      deferred_note_dao.contractAddress = 3,
      deferred_note_dao.storageSlot = 4,
      deferred_note_dao.txHash = 77,
      txNullifier = 78,
      newCommitments = [7, 8, 9],
      dataStartIndexForTx = 64,
      txHash_ref = 1\<rparr>"

definition example_note_dao :: "fr \<Rightarrow> (fr list) note_dao" where
  "example_note_dao nullifier =
     \<lparr>note_dao.publicKey = pk1, publicKey_ref = 2, note_dao.contractAddress = 3,
      note_dao.storageSlot = 4, note_dao.the_note = [5, 6], noteHash = 7,
      siloedNullifier = nullifier, note_dao.txHash = 77, leafIndex = 64\<rparr>"

definition nullified_env :: "(fr list) env" where
  "nullified_env = idle_env\<lparr>
     decoded := (\<lambda>pk ds. if ds = [] then [] else [example_note_dao 100, example_note_dao 200]),
     node_findLeafIndex :=
       (\<lambda>n. if n = 100 then Inr (Some 0) else if n = 200 then Inr (Some 7) else Inr None)\<rparr>"

definition deferred_account :: "(fr list) synchronizer" where
  "deferred_account =
     caught_up_account\<lparr>db := (db caught_up_account)\<lparr>storedDeferredNotes :=
                                                     [example_deferred_ref]\<rparr>\<rparr>"

section \<open>Serialisation round trip\<close>

lemma length_toBufferBE: "length (toBufferBE v width) = width"
  by (induction width arbitrary: v) auto

lemma toBigIntBE_snoc: "toBigIntBE (bs @ [b]) = toBigIntBE bs * 256 + unat b"
  by (simp add: toBigIntBE_def)

lemma toBigIntBE_toBufferBE: "toBigIntBE (toBufferBE v width) = v mod 256 ^ width"
proof (induction width arbitrary: v)
  case 0
  show ?case by (simp add: toBigIntBE_def)
next
  case (Suc width)
  have b: "unat (of_nat (v mod 256) :: byte) = v mod 256"
    by (simp add: unat_of_nat)
  have "v mod (256 * 256 ^ width) = 256 * (v div 256 mod 256 ^ width) + v mod 256"
    by (rule mod_mult2_eq)
  then show ?case
    by (simp add: toBigIntBE_snoc Suc.IH b)
qed

lemma readBytes_append: "length bs = n \<Longrightarrow> readBytes n (bs @ rest) = Inr (bs, rest)"
  by (simp add: readBytes_def)

lemma readFr_fr_toBuffer: "readFr (fr_toBuffer v @ rest) = Inr (v, rest)"
proof -
  have "unat v < 2 ^ 256" using unsigned_less [of v] by simp
  then have "unat v mod 256 ^ 32 = unat v" by simp
  then show ?thesis
    by (simp add: readFr_def fr_toBuffer_def readBytes_append length_toBufferBE
        toBigIntBE_toBufferBE)
qed

lemma readNumber_numToUInt32BE:
  assumes "numToUInt32BE n = Inr bs"
  shows "readNumber (bs @ rest) = Inr (n, rest)"
proof -
  from assms have r: "0 \<le> n" "n < 2 ^ 32" and bs: "bs = toBufferBE (nat n) 4"
    by (auto simp: numToUInt32BE_def split: if_splits)
  from r have "nat n < nat (2 ^ 32)" by (simp only: nat_less_eq_zless)
  then have "nat n < 2 ^ 32" by simp
  then have "nat n mod 256 ^ 4 = nat n" by simp
  with r show ?thesis
    by (simp add: readNumber_def bs readBytes_append length_toBufferBE toBigIntBE_toBufferBE)
qed

lemma readPoint_point_toBuffer: "readPoint (point_toBuffer p @ rest) = Inr (p, rest)"
  by (simp add: readPoint_def point_toBuffer_def readFr_fr_toBuffer)

lemma readItems_concat:
  "readItems readFr (length items) (concat (map fr_toBuffer items) @ rest) = Inr (items, rest)"
  by (induction items) (simp_all add: readFr_fr_toBuffer)

lemma readVector_vector_toBuffer:
  "vector_toBuffer items = Inr bs \<Longrightarrow> readVector readFr (bs @ rest) = Inr (items, rest)"
  by (auto simp: vector_toBuffer_def readVector_def readNumber_numToUInt32BE readItems_concat
      split: sum.splits)

text \<open>
  Claim C7. Reading back the buffer of a deferred note gives the deferred note:
  \<open>toBuffer\<close> writes the public key, the note, the contract address, the storage
  slot, the transaction hash, the transaction nullifier, the length-prefixed vector of
  new commitments and the start index, and \<open>fromBuffer\<close> reads them in that order.
  The start index is in the \<open>u32\<close> range; the array of commitments has fewer than
  \<open>2 ^ 32\<close> elements, as every JavaScript array has; and the note, whose class is a
  parameter here, is read back by its own reader from any buffer that starts with its
  bytes.
\<close>

theorem deferred_note_roundtrip:
  assumes nt: "note_toBuffer (deferred_note_dao.the_note d) = Inr nb"
    and rd: "\<forall>rest. note_fromBuffer (nb @ rest) = Inr (deferred_note_dao.the_note d, rest)"
    and len: "length (newCommitments d) < 2 ^ 32"
    and idx: "0 \<le> dataStartIndexForTx d" "dataStartIndexForTx d < 2 ^ 32"
  shows "\<exists>buf. toBuffer note_toBuffer d = Inr buf \<and> fromBuffer note_fromBuffer buf = Inr d"
proof -
  from len obtain cb where cb: "vector_toBuffer (newCommitments d) = Inr cb"
    by (auto simp: vector_toBuffer_def numToUInt32BE_def)
  from idx obtain ib where ib: "numToUInt32BE (dataStartIndexForTx d) = Inr ib"
    by (auto simp: numToUInt32BE_def)
  let ?buf = "point_toBuffer (deferred_note_dao.publicKey d) @ nb
     @ fr_toBuffer (deferred_note_dao.contractAddress d)
     @ fr_toBuffer (deferred_note_dao.storageSlot d)
     @ fr_toBuffer (deferred_note_dao.txHash d) @ fr_toBuffer (txNullifier d)
     @ cb @ ib"
  have t: "toBuffer note_toBuffer d = Inr ?buf"
    by (simp add: toBuffer_def nt cb ib)
  have n: "readNumber ib = Inr (dataStartIndexForTx d, [])"
    using readNumber_numToUInt32BE [OF ib, of "[]"] by simp
  have "fromBuffer note_fromBuffer ?buf = Inr d"
    by (simp add: fromBuffer_def readPoint_point_toBuffer rd readFr_fr_toBuffer
        readVector_vector_toBuffer [OF cb] n)
  with t show ?thesis by blast
qed

text \<open>
  The theorem at work on a deferred note with a note of two field elements and three
  new commitments.
\<close>

theorem deferred_note_roundtrip_witness:
  "length (newCommitments example_deferred_note) < 2 ^ 32
   \<and> 0 \<le> dataStartIndexForTx example_deferred_note
   \<and> dataStartIndexForTx example_deferred_note < 2 ^ 32
   \<and> (\<exists>buf. toBuffer vector_toBuffer example_deferred_note = Inr buf
         \<and> fromBuffer (readVector readFr) buf = Inr example_deferred_note)"
proof -
  obtain nb where nb: "vector_toBuffer (deferred_note_dao.the_note example_deferred_note) = Inr nb"
    by (auto simp: vector_toBuffer_def numToUInt32BE_def example_deferred_note_def)
  have rd: "\<forall>rest. readVector readFr (nb @ rest)
              = Inr (deferred_note_dao.the_note example_deferred_note, rest)"
    using readVector_vector_toBuffer [OF nb] by simp
  have len: "length (newCommitments example_deferred_note) < 2 ^ 32"
    by (simp add: example_deferred_note_def)
  have idx: "0 \<le> dataStartIndexForTx example_deferred_note"
    "dataStartIndexForTx example_deferred_note < 2 ^ 32"
    by (simp_all add: example_deferred_note_def)
  from deferred_note_roundtrip
         [of vector_toBuffer example_deferred_note nb "readVector readFr", OF nb rd len idx]
       len idx
  show ?thesis by blast
qed

section \<open>Frames and traces of the operations\<close>

lemma process_frame:
  assumes "process env np c l s = (r, s')"
  shows "trace s' = trace s @ [Call (Process (note_processor.publicKey np) c l)]"
    and "blockNumber (db s') = blockNumber (db s)"
    and "blockHeader (db s') = blockHeader (db s)"
    and "noteProcessors s' = noteProcessors s"
    and "noteProcessorsToCatchUp s' = noteProcessorsToCatchUp s"
    and "initialSyncBlockNumber s' = initialSyncBlockNumber s"
    and "running s' = running s"
  using assms
  by (auto simp: process_def record_call_def Let_def split: option.splits if_splits prod.splits)

lemma process_publicKey:
  assumes "process env np c l s = (Inr np', s')"
  shows "note_processor.publicKey np' = note_processor.publicKey np"
  using assms
  by (auto simp: process_def record_call_def Let_def split: option.splits if_splits prod.splits)

lemma process_each_frame:
  assumes "process_each env c l nps s = ((r, nps'), s')"
  shows "map note_processor.publicKey nps' = map note_processor.publicKey nps
    \<and> blockNumber (db s') = blockNumber (db s)
    \<and> blockHeader (db s') = blockHeader (db s)
    \<and> noteProcessors s' = noteProcessors s
    \<and> noteProcessorsToCatchUp s' = noteProcessorsToCatchUp s
    \<and> initialSyncBlockNumber s' = initialSyncBlockNumber s
    \<and> running s' = running s"
  using assms
proof (induction nps arbitrary: s r nps' s')
  case Nil
  then show ?case by simp
next
  case (Cons np nps)
  obtain q s1 where p: "process env np c l s = (q, s1)" by (cases "process env np c l s")
  show ?case
  proof (cases q)
    case (Inl e)
    with Cons.prems p have "nps' = np # nps" "s' = s1" by auto
    with process_frame [OF p] show ?thesis by simp
  next
    case (Inr np1)
    obtain r2 nps2 s2 where pe: "process_each env c l nps s1 = ((r2, nps2), s2)"
      by (metis prod.exhaust)
    with Cons.prems p Inr have eq: "nps' = np1 # nps2" "s' = s2" "r = r2" by auto
    from Cons.IH [OF pe] process_frame [OF p] process_publicKey [OF p [unfolded Inr]] eq
    show ?thesis by simp
  qed
qed

lemma process_each_trace:
  assumes "process_each env c l nps s = ((r, nps'), s')"
  shows "\<exists>k \<le> length nps. trace s' = trace s
            @ map (\<lambda>np. Call (Process (note_processor.publicKey np) c l)) (take k nps)
          \<and> (r = None \<longrightarrow> k = length nps) \<and> (r \<noteq> None \<longrightarrow> 0 < k)"
  using assms
proof (induction nps arbitrary: s r nps' s')
  case Nil
  then show ?case by simp
next
  case (Cons np nps)
  obtain q s1 where p: "process env np c l s = (q, s1)" by (cases "process env np c l s")
  show ?case
  proof (cases q)
    case (Inl e)
    with Cons.prems p have "r = Some e" "s' = s1" by auto
    with process_frame(1) [OF p] show ?thesis
      by (intro exI [of _ 1]) simp
  next
    case (Inr np1)
    obtain r2 nps2 s2 where pe: "process_each env c l nps s1 = ((r2, nps2), s2)"
      by (metis prod.exhaust)
    with Cons.prems p Inr have eq: "nps' = np1 # nps2" "s' = s2" "r = r2" by auto
    from Cons.IH [OF pe] obtain k where k: "k \<le> length nps"
      "trace s2 = trace s1 @ map (\<lambda>np. Call (Process (note_processor.publicKey np) c l)) (take k nps)"
      "r2 = None \<longrightarrow> k = length nps" by blast
    with process_frame(1) [OF p] eq show ?thesis
      by (intro exI [of _ "Suc k"]) simp
  qed
qed

lemma process_each_ok:
  assumes "\<forall>c. throws env c = None"
  shows "\<exists>nps' s'. process_each env c l nps s = ((None, nps'), s')
          \<and> trace s' = trace s @ map (\<lambda>np. Call (Process (note_processor.publicKey np) c l)) nps"
proof -
  obtain r nps' s' where p: "process_each env c l nps s = ((r, nps'), s')"
    by (metis prod.exhaust)
  have "r = None" using p
  proof (induction nps arbitrary: s r nps' s')
    case Nil
    then show ?case by simp
  next
    case (Cons np nps)
    then show ?case
      by (auto simp: process_def assms Let_def split: prod.splits if_splits)
  qed
  with process_each_trace [OF p] p show ?thesis by auto
qed

lemma process_calls_append: "process_calls (xs @ ys) = process_calls xs @ process_calls ys"
  by (induction xs rule: process_calls.induct) auto

lemma process_calls_map:
  "process_calls (map (\<lambda>np. Call (Process (note_processor.publicKey np) c l)) nps)
     = map (\<lambda>np. (note_processor.publicKey np, c, l)) nps"
  by (induction nps) auto

lemma process_calls_nonempty:
  "Call (Process pk c l) \<in> set tr \<Longrightarrow> process_calls tr \<noteq> []"
  by (induction tr rule: process_calls.induct) auto

lemma setBlockDataFromBlock_throws:
  assumes "setBlockDataFromBlock env latest s = (Inl e, s')"
  shows "s' = s \<or> (\<exists>n h. s' = record_call (SetBlockData n h) s)"
  using assms
  by (auto simp: setBlockDataFromBlock_def db_setBlockData_def Let_def
      split: option.splits if_splits)

lemma setBlockDataFromBlock_frame:
  assumes "setBlockDataFromBlock env latest s = (r, s')"
  shows "noteProcessors s' = noteProcessors s"
    and "noteProcessorsToCatchUp s' = noteProcessorsToCatchUp s"
    and "initialSyncBlockNumber s' = initialSyncBlockNumber s"
    and "running s' = running s"
    and "length (trace s) \<le> length (trace s')"
  using assms
  by (auto simp: setBlockDataFromBlock_def db_setBlockData_def record_call_def Let_def
      split: option.splits if_splits)

lemma setBlockDataFromBlock_ok:
  assumes "\<forall>c. throws env c = None"
    and "setBlockDataFromBlock env (Some ctx) s = (r, s')"
  shows "r = Inr ()"
    and "process_calls (drop (length (trace s)) (trace s')) = []"
    and "length (trace s) \<le> length (trace s')"
    and "noteProcessors s' = noteProcessors s"
  using assms
  by (auto simp: setBlockDataFromBlock_def db_setBlockData_def record_call_def Let_def
      split: if_splits)

lemma setBlockDataFromBlock_blockNumber:
  assumes "setBlockDataFromBlock env latest s = (r, s')"
  shows "blockNumber (db s') = blockNumber (db s)
         \<or> (\<exists>ctx. latest = Some ctx \<and> blockNumber (db s') = Some (number (block ctx)))"
  using assms
  by (auto simp: setBlockDataFromBlock_def db_setBlockData_def record_call_def Let_def
      split: option.splits if_splits)

lemma js_last_filtered:
  assumes "js_last (map (\<lambda>b. \<lparr>block = b\<rparr>) (filter P bs)) = Some ctx"
  shows "P (block ctx)"
proof -
  from assms have ne: "filter P bs \<noteq> []" and c: "ctx = \<lparr>block = last (filter P bs)\<rparr>"
    by (auto simp: js_last_def last_map split: if_splits)
  from ne have "last (filter P bs) \<in> set (filter P bs)" by (rule last_in_set)
  with c show ?thesis by simp
qed

text \<open>
  The ways through the \<open>try\<close> of \<open>work\<close>: it ends before \<open>setBlockDataFromBlock\<close>
  with the state untouched, or \<open>setBlockDataFromBlock\<close> throws, or the loop over the
  note processors runs.
\<close>

lemma work_try_cases:
  assumes "work_try env f limit s = (r, s1)"
  obtains (early) "s1 = s"
    | (sbd) blocks e where
        "setBlockDataFromBlock env
           (js_last (map (\<lambda>b. \<lparr>block = b\<rparr>) (filter (\<lambda>b. number b \<ge> f) blocks))) s = (Inl e, s1)"
        "r = Inl e"
    | (proc) blocks u s0 c l nps s2 k q where
        "setBlockDataFromBlock env
           (js_last (map (\<lambda>b. \<lparr>block = b\<rparr>) (filter (\<lambda>b. number b \<ge> f) blocks))) s = (Inr u, s0)"
        "process_each env c l (noteProcessors (log_event k s0)) (log_event k s0) = ((q, nps), s2)"
        "s1 = s2\<lparr>noteProcessors := nps\<rparr>"
        "r = (case q of Some e \<Rightarrow> Inl e | None \<Rightarrow> Inr True)"
  using assms unfolding work_try_def Let_def
  by (auto split: sum.splits if_splits prod.splits option.splits)

lemma work_try_error:
  assumes "work_try env f limit s = (Inl e, s1)"
  shows "s1 = s \<or> (\<exists>n h. s1 = record_call (SetBlockData n h) s)
         \<or> process_calls (drop (length (trace s)) (trace s1)) \<noteq> []"
  using assms
proof (cases rule: work_try_cases)
  case early
  then show ?thesis by simp
next
  case (sbd blocks e')
  from setBlockDataFromBlock_throws [OF sbd(1)] show ?thesis by blast
next
  case (proc blocks u s0 c l nps s2 k q)
  from proc(4) have "q \<noteq> None" by (auto split: option.splits)
  with process_each_trace [OF proc(2)] obtain j where
    j: "trace s2 = trace (log_event k s0)
          @ map (\<lambda>np. Call (Process (note_processor.publicKey np) c l))
              (take j (noteProcessors (log_event k s0)))"
       "0 < j" "j \<le> length (noteProcessors (log_event k s0))"
    by auto
  then obtain np where np: "np \<in> set (take j (noteProcessors (log_event k s0)))"
    by (cases "take j (noteProcessors (log_event k s0))") auto
  from setBlockDataFromBlock_frame(5) [OF proc(1)]
  have le: "length (trace s) \<le> length (trace (log_event k s0))"
    by (simp add: log_event_def)
  have "Call (Process (note_processor.publicKey np) c l)
          \<in> set (drop (length (trace s)) (trace s1))"
    using j(1) np le proc(3) by (auto simp: image_iff)
  then show ?thesis using process_calls_nonempty by blast
qed

lemma work_try_blockNumber:
  assumes "work_try env f limit s = (r, s1)"
  shows "blockNumber (db s1) = blockNumber (db s) \<or> (\<exists>n \<ge> f. blockNumber (db s1) = Some n)"
  using assms
proof (cases rule: work_try_cases)
  case early
  then show ?thesis by simp
next
  case (sbd blocks e)
  from setBlockDataFromBlock_blockNumber [OF sbd(1)] js_last_filtered show ?thesis
    by fastforce
next
  case (proc blocks u s0 c l nps s2 k q)
  from process_each_frame [OF proc(2)] proc(3)
  have "blockNumber (db s1) = blockNumber (db s0)" by (simp add: log_event_def)
  with setBlockDataFromBlock_blockNumber [OF proc(1)] js_last_filtered show ?thesis
    by fastforce
qed

lemma work_lists:
  "map note_processor.publicKey (noteProcessors (snd (work env limit s)))
     = map note_processor.publicKey (noteProcessors s)
   \<and> noteProcessorsToCatchUp (snd (work env limit s)) = noteProcessorsToCatchUp s"
proof -
  obtain r s1 where wt: "work_try env (getSynchedBlockNumber s + 1) limit s = (r, s1)"
    by (metis prod.exhaust)
  have w: "noteProcessors (snd (work env limit s)) = noteProcessors s1"
    "noteProcessorsToCatchUp (snd (work env limit s)) = noteProcessorsToCatchUp s1"
    by (simp_all add: work_def wt log_event_def split: sum.splits)
  from wt have "map note_processor.publicKey (noteProcessors s1)
     = map note_processor.publicKey (noteProcessors s)
   \<and> noteProcessorsToCatchUp s1 = noteProcessorsToCatchUp s"
  proof (cases rule: work_try_cases)
    case early
    then show ?thesis by simp
  next
    case (sbd blocks e)
    from setBlockDataFromBlock_frame [OF sbd(1)] show ?thesis by simp
  next
    case (proc blocks u s0 c l nps s2 k q)
    from process_each_frame [OF proc(2)] setBlockDataFromBlock_frame [OF proc(1)] proc(3)
    show ?thesis by (simp add: log_event_def)
  qed
  with w show ?thesis by simp
qed

text \<open>
  \<open>work_try\<close> past the three early returns and the \<open>forEach\<close>: what is left is
  \<open>setBlockDataFromBlock\<close> and the loop over the note processors.
\<close>

lemma work_try_fetched:
  assumes f: "fetched env fromBlock limit enc unenc bs"
    and a: "attach_each env (take (length bs) enc) (take (length bs) unenc) 0 bs = Inr attached"
  shows "work_try env fromBlock limit s =
     (case setBlockDataFromBlock env
             (js_last (map (\<lambda>b. \<lparr>block = b\<rparr>) (filter (\<lambda>b. number b \<ge> fromBlock) attached))) s of
        (Inl e, s1) \<Rightarrow> (Inl e, s1)
      | (Inr u, s1) \<Rightarrow>
          (case process_each env
                  (map (\<lambda>b. \<lparr>block = b\<rparr>) (filter (\<lambda>b. number b \<ge> fromBlock) attached))
                  (take (length bs) enc)
                  (noteProcessors s1)
                  (log_event (LogForwarding (getTotalLogCount (take (length bs) enc))
                                (length (noteProcessors s1))) s1) of
             ((r, nps), s3) \<Rightarrow>
               (case r of Some e \<Rightarrow> (Inl e, s3\<lparr>noteProcessors := nps\<rparr>)
                        | None \<Rightarrow> (Inr True, s3\<lparr>noteProcessors := nps\<rparr>))))"
proof -
  define enc' where "enc' = take (length bs) enc"
  define unenc' where "unenc' = take (length bs) unenc"
  define contexts where
    "contexts = map (\<lambda>b. \<lparr>block = b\<rparr>) (filter (\<lambda>b. number b \<ge> fromBlock) attached)"
  have e1: "(if length bs \<noteq> length enc then take (length bs) enc else enc) = enc'"
    by (simp add: enc'_def)
  have e2: "(if length bs \<noteq> length unenc then take (length bs) unenc else unenc) = unenc'"
    by (simp add: unenc'_def)
  from f have g: "node_getLogs env fromBlock limit ENCRYPTED = Inr enc" "enc \<noteq> []"
    "node_getLogs env fromBlock limit UNENCRYPTED = Inr unenc" "unenc \<noteq> []"
    "node_getBlocks env fromBlock (int (length enc)) = Inr bs" "bs \<noteq> []"
    by (simp_all add: fetched_def)
  obtain q s1 where sb: "setBlockDataFromBlock env (js_last contexts) s = (q, s1)"
    by (metis prod.exhaust)
  show ?thesis
  proof (cases q)
    case (Inl e)
    then show ?thesis
      unfolding work_try_def
      by (simp add: g Let_def e1 e2 a [folded enc'_def unenc'_def] contexts_def [symmetric] sb
          log_event_def)
  next
    case (Inr u)
    obtain r nps s3 where pe: "process_each env contexts enc' (noteProcessors s1)
        (log_event (LogForwarding (getTotalLogCount enc') (length (noteProcessors s1))) s1)
        = ((r, nps), s3)"
      by (metis prod.exhaust)
    have np: "noteProcessors (log_event (LogForwarding (getTotalLogCount enc')
                (length (noteProcessors s1))) s1) = noteProcessors s1"
      by (simp add: log_event_def)
    show ?thesis
      unfolding work_try_def
      by (cases r)
        (simp_all add: g Let_def e1 e2 a [folded enc'_def unenc'_def] contexts_def [symmetric]
          sb Inr np pe enc'_def [symmetric])
  qed
qed

lemma setBlockDataFromBlock_closed:
  "number (block ctx) < initialSyncBlockNumber s
   \<Longrightarrow> setBlockDataFromBlock env (Some ctx) s = (Inr (), s)"
  by (simp add: setBlockDataFromBlock_def)

lemma setBlockDataFromBlock_open:
  assumes "number (block ctx) \<ge> initialSyncBlockNumber s"
  shows "setBlockDataFromBlock env (Some ctx) s
     = (case throws env (SetBlockData (number (block ctx)) (header_of env (block ctx))) of
          Some e \<Rightarrow>
            (Inl e, record_call (SetBlockData (number (block ctx)) (header_of env (block ctx))) s)
        | None \<Rightarrow>
            (Inr (),
             (record_call (SetBlockData (number (block ctx)) (header_of env (block ctx))) s)
               \<lparr>db := (db s)\<lparr>blockNumber := Some (number (block ctx)),
                               blockHeader := Some (header_of env (block ctx))\<rparr>\<rparr>))"
  using assms
  by (simp add: setBlockDataFromBlock_def db_setBlockData_def header_of_def record_call_def
      Let_def split: option.splits)

lemma process_each_first_throw:
  assumes "find (\<lambda>np. throws env (Process (note_processor.publicKey np) c l) \<noteq> None) nps = Some np"
    and "throws env (Process (note_processor.publicKey np) c l) = Some e"
  shows "\<exists>nps' s'. process_each env c l nps s = ((Some e, nps'), s')"
  using assms
proof (induction nps arbitrary: s)
  case Nil
  then show ?case by simp
next
  case (Cons p ps)
  show ?case
  proof (cases "throws env (Process (note_processor.publicKey p) c l)")
    case None
    with Cons.prems have f: "find (\<lambda>np. throws env (Process (note_processor.publicKey np) c l) \<noteq> None) ps
        = Some np" by simp
    obtain q s1 where p: "process env p c l s = (q, s1)" by (metis prod.exhaust)
    with None obtain p1 where q: "q = Inr p1"
      by (auto simp: process_def Let_def split: if_splits prod.splits)
    from Cons.IH [OF f Cons.prems(2), of s1] obtain nps' s' where
      "process_each env c l ps s1 = ((Some e, nps'), s')" by blast
    with p q show ?thesis by simp
  next
    case (Some e')
    with Cons.prems have "p = np" by simp
    with Cons.prems(2) have "process env p c l s
        = (Inl e, record_call (Process (note_processor.publicKey p) c l) s)"
      by (simp add: process_def Let_def)
    then show ?thesis by simp
  qed
qed

lemma same_from:
  assumes "db t = db s" "initialSyncBlockNumber t = initialSyncBlockNumber s"
  shows "getSynchedBlockNumber t + 1 = getSynchedBlockNumber s + 1"
  using assms by (simp add: getSynchedBlockNumber_def split: option.splits)

section \<open>Frames of catch-up, start and deferred-note reprocessing\<close>

lemma ubn_refl: "unchanged_but_notes s s"
  by (simp add: unchanged_but_notes_def)

lemma ubn_trans: "unchanged_but_notes s s1 \<Longrightarrow> unchanged_but_notes s1 s2 \<Longrightarrow> unchanged_but_notes s s2"
  by (simp add: unchanged_but_notes_def)

lemma cursor_le_refl: "cursor_le a a"
  by (simp add: cursor_le_def split: option.splits)

lemma cursor_le_trans: "cursor_le a b \<Longrightarrow> cursor_le b c \<Longrightarrow> cursor_le a c"
  by (auto simp: cursor_le_def split: option.splits)

lemma work_cursor: "cursor_le (blockNumber (db s)) (blockNumber (db (snd (work env limit s))))"
proof -
  obtain r s1 where wt: "work_try env (getSynchedBlockNumber s + 1) limit s = (r, s1)"
    by (metis prod.exhaust)
  have "blockNumber (db (snd (work env limit s))) = blockNumber (db s1)"
    by (simp add: work_def wt log_event_def split: sum.splits)
  moreover from work_try_blockNumber [OF wt]
  have "cursor_le (blockNumber (db s)) (blockNumber (db s1))"
    by (auto simp: cursor_le_def getSynchedBlockNumber_def split: option.splits)
  ultimately show ?thesis by simp
qed

lemma catchUp_try_ubn:
  assumes "catchUp_try env np f limit to s = (r, s')"
  shows "blockNumber (db s') = blockNumber (db s) \<and> blockHeader (db s') = blockHeader (db s)
     \<and> running s' = running s \<and> initialSyncBlockNumber s' = initialSyncBlockNumber s"
proof -
  from assms consider
      (early) "s' = s"
    | (proc) c l k q s2 where "process env np c l (log_event k s) = (q, s2)"
        "blockNumber (db s') = blockNumber (db s2)" "blockHeader (db s') = blockHeader (db s2)"
        "running s' = running s2" "initialSyncBlockNumber s' = initialSyncBlockNumber s2"
    unfolding catchUp_try_def Let_def
    by (auto simp: record_call_def log_event_def split: sum.splits if_splits prod.splits option.splits)
  then show ?thesis
  proof cases
    case early
    then show ?thesis by simp
  next
    case proc
    with process_frame [OF proc(1)] show ?thesis by (simp add: log_event_def)
  qed
qed

lemma workNoteProcessorCatchUp_cursor:
  "blockNumber (db (snd (workNoteProcessorCatchUp env limit s))) = blockNumber (db s)"
proof -
  have "\<And>np f l to r s'. catchUp_try env np f l to s = (r, s') \<Longrightarrow> blockNumber (db s') = blockNumber (db s)"
    using catchUp_try_ubn by blast
  then show ?thesis
    by (auto simp: workNoteProcessorCatchUp_def Let_def log_event_def
        split: list.splits sum.splits prod.splits)
qed

lemma catchUp_try_lists:
  assumes "catchUp_try env np f limit to s = (r, s')"
    and "noteProcessorsToCatchUp s = np # others"
  shows "(noteProcessors s' = noteProcessors s
          \<and> map note_processor.publicKey (noteProcessorsToCatchUp s')
              = map note_processor.publicKey (noteProcessorsToCatchUp s))
       \<or> (map note_processor.publicKey (noteProcessors s')
              = map note_processor.publicKey (noteProcessors s) @ [note_processor.publicKey np]
          \<and> noteProcessorsToCatchUp s' = others)"
proof -
  from assms(1) consider
      (early) "s' = s"
    | (thrown) c l k e where "process env np c l (log_event k s) = (Inl e, s')"
    | (processed) c l k np1 s2 where "process env np c l (log_event k s) = (Inr np1, s2)"
        "(noteProcessors s' = noteProcessors s2
            \<and> noteProcessorsToCatchUp s' = np1 # tl (noteProcessorsToCatchUp s2))
         \<or> (noteProcessors s' = noteProcessors s2 @ [np1]
            \<and> noteProcessorsToCatchUp s' = tl (noteProcessorsToCatchUp s2))"
    unfolding catchUp_try_def Let_def
    by (auto simp: record_call_def log_event_def split: sum.splits if_splits prod.splits option.splits)
  then show ?thesis
  proof cases
    case early
    then show ?thesis by simp
  next
    case thrown
    from process_frame [OF thrown] show ?thesis by (simp add: log_event_def)
  next
    case processed
    from process_frame [OF processed(1)] process_publicKey [OF processed(1)] processed(2) assms(2)
    show ?thesis by (auto simp: log_event_def)
  qed
qed

lemma distinct_move:
  assumes "distinct (xs @ y # ys)"
  shows "distinct ((xs @ [y]) @ ys)"
  using assms by auto

lemma workNoteProcessorCatchUp_lists:
  assumes "noteProcessorsToCatchUp s = np # others"
    and "workNoteProcessorCatchUp env limit s = (r, s')"
  shows "(map note_processor.publicKey (noteProcessors s')
              = map note_processor.publicKey (noteProcessors s)
          \<and> map note_processor.publicKey (noteProcessorsToCatchUp s')
              = map note_processor.publicKey (noteProcessorsToCatchUp s))
       \<or> (map note_processor.publicKey (noteProcessors s')
              = map note_processor.publicKey (noteProcessors s) @ [note_processor.publicKey np]
          \<and> noteProcessorsToCatchUp s' = others)"
proof (cases "syncedToBlock np \<ge> getSynchedBlockNumber s")
  case True
  with assms show ?thesis by (auto simp: workNoteProcessorCatchUp_def)
next
  case False
  define fromBlock where "fromBlock = syncedToBlock np + 1"
  define lim where "lim = min limit (getSynchedBlockNumber s - fromBlock + 1)"
  show ?thesis
  proof (cases "lim < 1")
    case True
    with assms False show ?thesis
      by (auto simp: workNoteProcessorCatchUp_def Let_def fromBlock_def [symmetric]
          lim_def [symmetric])
  next
    case lim: False
    obtain q s1 where c: "catchUp_try env np fromBlock lim (getSynchedBlockNumber s) s = (q, s1)"
      by (metis prod.exhaust)
    from assms False lim c
    have "noteProcessors s' = noteProcessors s1"
      "noteProcessorsToCatchUp s' = noteProcessorsToCatchUp s1"
      by (auto simp: workNoteProcessorCatchUp_def Let_def fromBlock_def [symmetric]
          lim_def [symmetric] log_event_def split: sum.splits)
    with catchUp_try_lists [OF c assms(1)] show ?thesis by auto
  qed
qed

lemma workNoteProcessorCatchUp_distinct:
  assumes "distinct (map note_processor.publicKey (noteProcessors s @ noteProcessorsToCatchUp s))"
  shows "distinct (map note_processor.publicKey
           (noteProcessors (snd (workNoteProcessorCatchUp env limit s))
            @ noteProcessorsToCatchUp (snd (workNoteProcessorCatchUp env limit s))))"
proof (cases "noteProcessorsToCatchUp s")
  case Nil
  with assms show ?thesis by (simp add: workNoteProcessorCatchUp_def)
next
  case (Cons np others)
  obtain r s' where w: "workNoteProcessorCatchUp env limit s = (r, s')" by (metis prod.exhaust)
  let ?A = "map note_processor.publicKey (noteProcessors s)"
  let ?O = "map note_processor.publicKey others"
  let ?k = "note_processor.publicKey np"
  from assms Cons have d: "distinct (?A @ ?k # ?O)" by simp
  then have d2: "distinct ((?A @ [?k]) @ ?O)" by (rule distinct_move)
  from workNoteProcessorCatchUp_lists [OF Cons w] Cons
  have "map note_processor.publicKey (noteProcessors s' @ noteProcessorsToCatchUp s') = ?A @ ?k # ?O
      \<or> map note_processor.publicKey (noteProcessors s' @ noteProcessorsToCatchUp s')
          = (?A @ [?k]) @ ?O"
    by auto
  with d d2 show ?thesis by (auto simp only: w snd_conv)
qed

lemma initialSync_lists:
  "noteProcessors (snd (initialSync env s)) = noteProcessors s
   \<and> noteProcessorsToCatchUp (snd (initialSync env s)) = noteProcessorsToCatchUp s"
  by (auto simp: initialSync_def db_setBlockData_def record_call_def Let_def
      split: sum.splits option.splits)

lemma start_lists:
  "noteProcessors (snd (start env s)) = noteProcessors s
   \<and> noteProcessorsToCatchUp (snd (start env s)) = noteProcessorsToCatchUp s"
proof (cases "running s")
  case True
  then show ?thesis by (simp add: start_def)
next
  case False
  obtain q s1 where i: "initialSync env (s\<lparr>running := True\<rparr>) = (q, s1)" by (metis prod.exhaust)
  from initialSync_lists [of env "s\<lparr>running := True\<rparr>"] i
  have "noteProcessors s1 = noteProcessors s \<and> noteProcessorsToCatchUp s1 = noteProcessorsToCatchUp s"
    by simp
  with False i show ?thesis by (simp add: start_def log_event_def split: sum.splits)
qed

lemma ubn_db_getDeferredNotesByContract:
  "db_getDeferredNotesByContract env a s = (r, s') \<Longrightarrow> unchanged_but_notes s s'"
  by (auto simp: db_getDeferredNotesByContract_def unchanged_but_notes_def record_call_def Let_def
      split: option.splits)

lemma ubn_db_removeDeferredNotesByContract:
  "db_removeDeferredNotesByContract env a s = (r, s') \<Longrightarrow> unchanged_but_notes s s'"
  by (auto simp: db_removeDeferredNotesByContract_def unchanged_but_notes_def record_call_def Let_def
      split: option.splits)

lemma ubn_db_addNotes:
  "db_addNotes env ns s = (r, s') \<Longrightarrow> unchanged_but_notes s s'"
  by (auto simp: db_addNotes_def unchanged_but_notes_def record_call_def Let_def
      split: option.splits)

lemma ubn_db_removeNullifiedNotes:
  "db_removeNullifiedNotes env ns pk s = (r, s') \<Longrightarrow> unchanged_but_notes s s'"
  by (auto simp: db_removeNullifiedNotes_def unchanged_but_notes_def record_call_def Let_def
      split: option.splits)

lemma ubn_decodeDeferredNotes:
  "decodeDeferredNotes env p ds s = (r, s') \<Longrightarrow> unchanged_but_notes s s'"
  by (auto simp: decodeDeferredNotes_def unchanged_but_notes_def record_call_def Let_def
      split: option.splits)

lemma ubn_decode_each_processor:
  "decode_each_processor env ds ps s = (r, s') \<Longrightarrow> unchanged_but_notes s s'"
proof (induction ps arbitrary: s r s')
  case Nil
  then show ?case by (simp add: ubn_refl)
next
  case (Cons p ps)
  obtain q s1 where d: "decodeDeferredNotes env p
      (filter (\<lambda>n. deferred_note_dao.publicKey n = note_processor.publicKey p) ds) s = (q, s1)"
    by (metis prod.exhaust)
  note u1 = ubn_decodeDeferredNotes [OF d]
  show ?case
  proof (cases q)
    case (Inl e)
    with Cons.prems d u1 show ?thesis by simp
  next
    case (Inr ns)
    obtain q2 s2 where d2: "decode_each_processor env ds ps s1 = (q2, s2)"
      by (metis prod.exhaust)
    with Cons.prems d Inr have "s' = s2" by (auto split: sum.splits)
    with Cons.IH [OF d2] u1 show ?thesis by (blast intro: ubn_trans)
  qed
qed

lemma ubn_decode_each_tx:
  "decode_each_tx env groups s = (r, s') \<Longrightarrow> unchanged_but_notes s s'"
proof (induction groups arbitrary: s r s')
  case Nil
  then show ?case by (simp add: ubn_refl)
next
  case (Cons g groups)
  obtain key ds where g: "g = (key, ds)" by (cases g)
  obtain q s1 where d: "decode_each_processor env ds (noteProcessors s) s = (q, s1)"
    by (metis prod.exhaust)
  note u1 = ubn_decode_each_processor [OF d]
  show ?case
  proof (cases q)
    case (Inl e)
    with Cons.prems d u1 g show ?thesis by simp
  next
    case (Inr ns)
    obtain q2 s2 where d2: "decode_each_tx env groups s1 = (q2, s2)"
      by (metis prod.exhaust)
    with Cons.prems d Inr g have "s' = s2" by (auto split: sum.splits)
    with Cons.IH [OF d2] u1 show ?thesis by (blast intro: ubn_trans)
  qed
qed

lemma ubn_remove_nullified:
  "remove_nullified env groups s = (r, s') \<Longrightarrow> unchanged_but_notes s s'"
proof (induction groups arbitrary: s r s')
  case Nil
  then show ?case by (simp add: ubn_refl)
next
  case (Cons g groups)
  obtain key ns where g: "g = (key, ns)" by (cases g)
  show ?case
  proof (cases "find_relevant env (map siloedNullifier ns)")
    case (Inl e)
    with Cons.prems g show ?thesis by (simp add: ubn_refl)
  next
    case (Inr rel)
    obtain q s1 where d: "db_removeNullifiedNotes env rel (snd key) s = (q, s1)"
      by (metis prod.exhaust)
    note u1 = ubn_db_removeNullifiedNotes [OF d]
    show ?thesis
    proof (cases q)
      case (Inl e)
      with Cons.prems g Inr d u1 show ?thesis by simp
    next
      case (Inr u)
      with Cons.prems g \<open>find_relevant env (map siloedNullifier ns) = Inr rel\<close> d
      have "remove_nullified env groups s1 = (r, s')" by simp
      from Cons.IH [OF this] u1 show ?thesis by (blast intro: ubn_trans)
    qed
  qed
qed

lemma ubn_trace_update: "unchanged_but_notes s (s\<lparr>trace := t\<rparr>)"
  by (simp add: unchanged_but_notes_def)

lemma ubn_reprocess:
  assumes "reprocessDeferredNotesForContract env a s = (r, s')"
  shows "unchanged_but_notes s s'"
proof -
  from assms consider
      (get) q where "db_getDeferredNotesByContract env a s = (q, s')"
    | (dec) q1 s1 g q where "db_getDeferredNotesByContract env a s = (q1, s1)"
        "decode_each_tx env g s1 = (q, s')"
    | (rem) q1 s1 g q2 s2 q where "db_getDeferredNotesByContract env a s = (q1, s1)"
        "decode_each_tx env g s1 = (q2, s2)" "db_removeDeferredNotesByContract env a s2 = (q, s')"
    | (add) q1 s1 g q2 s2 q3 s3 ns q where "db_getDeferredNotesByContract env a s = (q1, s1)"
        "decode_each_tx env g s1 = (q2, s2)" "db_removeDeferredNotesByContract env a s2 = (q3, s3)"
        "db_addNotes env ns s3 = (q, s')"
    | (nul) q1 s1 g q2 s2 q3 s3 ns q4 s4 t g2 where "db_getDeferredNotesByContract env a s = (q1, s1)"
        "decode_each_tx env g s1 = (q2, s2)" "db_removeDeferredNotesByContract env a s2 = (q3, s3)"
        "db_addNotes env ns s3 = (q4, s4)"
        "remove_nullified env g2 (s4\<lparr>trace := t\<rparr>) = (r, s')"
    unfolding reprocessDeferredNotesForContract_def Let_def
    by (auto split: sum.splits prod.splits)
  then show ?thesis
  proof cases
    case get
    then show ?thesis by (rule ubn_db_getDeferredNotesByContract)
  next
    case dec
    then show ?thesis
      by (blast intro: ubn_trans ubn_db_getDeferredNotesByContract ubn_decode_each_tx)
  next
    case rem
    then show ?thesis
      by (blast intro: ubn_trans ubn_db_getDeferredNotesByContract ubn_decode_each_tx
          ubn_db_removeDeferredNotesByContract)
  next
    case add
    then show ?thesis
      by (blast intro: ubn_trans ubn_db_getDeferredNotesByContract ubn_decode_each_tx
          ubn_db_removeDeferredNotesByContract ubn_db_addNotes)
  next
    case nul
    have "unchanged_but_notes s s4" using nul(1-4)
      by (blast intro: ubn_trans ubn_db_getDeferredNotesByContract ubn_decode_each_tx
          ubn_db_removeDeferredNotesByContract ubn_db_addNotes)
    moreover have "unchanged_but_notes s4 (s4\<lparr>trace := t\<rparr>)" by (rule ubn_trace_update)
    moreover have "unchanged_but_notes (s4\<lparr>trace := t\<rparr>) s'"
      using nul(5) by (rule ubn_remove_nullified)
    ultimately show ?thesis by (blast intro: ubn_trans)
  qed
qed

lemma initialSync_blockNumber:
  "blockNumber (db (snd (initialSync env s))) = blockNumber (db s)
   \<or> (\<exists>latest. node_getBlockNumber env = Inr latest
         \<and> blockNumber (db (snd (initialSync env s))) = Some latest)"
  by (auto simp: initialSync_def db_setBlockData_def record_call_def Let_def
      split: sum.splits option.splits)

lemma initialSync_cursor:
  "node_ahead env s \<Longrightarrow> cursor_le (blockNumber (db s)) (blockNumber (db (snd (initialSync env s))))"
  using initialSync_blockNumber [of env s]
  by (auto simp: node_ahead_def cursor_le_refl)

lemma initialSync_running_irrelevant:
  "blockNumber (db (snd (initialSync env (s\<lparr>running := b\<rparr>))))
     = blockNumber (db (snd (initialSync env s)))"
  by (auto simp: initialSync_def db_setBlockData_def record_call_def Let_def
      split: sum.splits option.splits)

lemma start_blockNumber:
  "blockNumber (db (snd (start env s)))
     = (if running s then blockNumber (db s) else blockNumber (db (snd (initialSync env s))))"
proof (cases "running s")
  case True
  then show ?thesis by (simp add: start_def)
next
  case False
  obtain q s1 where i: "initialSync env (s\<lparr>running := True\<rparr>) = (q, s1)" by (metis prod.exhaust)
  have "blockNumber (db (snd (start env s))) = blockNumber (db s1)"
    using False i by (simp add: start_def log_event_def split: sum.splits)
  also have "\<dots> = blockNumber (db (snd (initialSync env (s\<lparr>running := True\<rparr>))))"
    by (simp add: i)
  finally show ?thesis using False by (simp add: initialSync_running_irrelevant)
qed

lemma rn_calls_append:
  "removeNullifiedNotes_calls (xs @ ys)
     = removeNullifiedNotes_calls xs @ removeNullifiedNotes_calls ys"
  by (induction xs rule: removeNullifiedNotes_calls.induct) auto

lemma ofr_Nil: "only_found_removed env []"
  by (simp add: only_found_removed_def)

lemma ofr_append:
  "only_found_removed env xs \<Longrightarrow> only_found_removed env ys \<Longrightarrow> only_found_removed env (xs @ ys)"
  by (auto simp: only_found_removed_def rn_calls_append)

lemma ofr_compose:
  assumes "\<exists>tr. trace s1 = trace s @ tr \<and> only_found_removed env tr"
    and "\<exists>tr. trace s2 = trace s1 @ tr \<and> only_found_removed env tr"
  shows "\<exists>tr. trace s2 = trace s @ tr \<and> only_found_removed env tr"
proof -
  from assms obtain a b where "trace s1 = trace s @ a" "only_found_removed env a"
    "trace s2 = trace s1 @ b" "only_found_removed env b" by blast
  then have "trace s2 = trace s @ (a @ b) \<and> only_found_removed env (a @ b)"
    by (simp add: ofr_append)
  then show ?thesis by blast
qed

lemma ofr_single:
  assumes "trace s' = trace s @ [e]" "only_found_removed env [e]"
  shows "\<exists>tr. trace s' = trace s @ tr \<and> only_found_removed env tr"
  using assms by blast

lemma ofr_db_getDeferredNotesByContract:
  assumes "db_getDeferredNotesByContract env a s = (r, s')"
  shows "\<exists>tr. trace s' = trace s @ tr \<and> only_found_removed env tr"
proof (rule ofr_single)
  show "trace s' = trace s @ [Call (GetDeferredNotesByContract a)]"
    using assms
    by (auto simp: db_getDeferredNotesByContract_def record_call_def Let_def split: option.splits)
  show "only_found_removed env [Call (GetDeferredNotesByContract a)]"
    by (simp add: only_found_removed_def)
qed

lemma ofr_db_removeDeferredNotesByContract:
  assumes "db_removeDeferredNotesByContract env a s = (r, s')"
  shows "\<exists>tr. trace s' = trace s @ tr \<and> only_found_removed env tr"
proof (rule ofr_single)
  show "trace s' = trace s @ [Call (RemoveDeferredNotesByContract a)]"
    using assms
    by (auto simp: db_removeDeferredNotesByContract_def record_call_def Let_def split: option.splits)
  show "only_found_removed env [Call (RemoveDeferredNotesByContract a)]"
    by (simp add: only_found_removed_def)
qed

lemma ofr_db_addNotes:
  assumes "db_addNotes env ns s = (r, s')"
  shows "\<exists>tr. trace s' = trace s @ tr \<and> only_found_removed env tr"
proof (rule ofr_single)
  show "trace s' = trace s @ [Call (AddNotes ns)]"
    using assms
    by (auto simp: db_addNotes_def record_call_def Let_def split: option.splits)
  show "only_found_removed env [Call (AddNotes ns)]"
    by (simp add: only_found_removed_def)
qed

lemma ofr_decodeDeferredNotes:
  assumes "decodeDeferredNotes env p ds s = (r, s')"
  shows "\<exists>tr. trace s' = trace s @ tr \<and> only_found_removed env tr"
proof (rule ofr_single)
  show "trace s' = trace s @ [Call (DecodeDeferredNotes (note_processor.publicKey p) ds)]"
    using assms
    by (auto simp: decodeDeferredNotes_def record_call_def Let_def split: option.splits)
  show "only_found_removed env [Call (DecodeDeferredNotes (note_processor.publicKey p) ds)]"
    by (simp add: only_found_removed_def)
qed

lemma ofr_decode_each_processor:
  "decode_each_processor env ds ps s = (r, s')
   \<Longrightarrow> \<exists>tr. trace s' = trace s @ tr \<and> only_found_removed env tr"
proof (induction ps arbitrary: s r s')
  case Nil
  then show ?case by (simp add: ofr_Nil)
next
  case (Cons p ps)
  obtain q s1 where d: "decodeDeferredNotes env p
      (filter (\<lambda>n. deferred_note_dao.publicKey n = note_processor.publicKey p) ds) s = (q, s1)"
    by (metis prod.exhaust)
  note u1 = ofr_decodeDeferredNotes [OF d]
  show ?case
  proof (cases q)
    case (Inl e)
    with Cons.prems d u1 show ?thesis by simp
  next
    case (Inr ns)
    obtain q2 s2 where d2: "decode_each_processor env ds ps s1 = (q2, s2)"
      by (metis prod.exhaust)
    with Cons.prems d Inr have "s' = s2" by (auto split: sum.splits)
    with Cons.IH [OF d2] u1 show ?thesis by (blast intro: ofr_compose)
  qed
qed

lemma ofr_decode_each_tx:
  "decode_each_tx env groups s = (r, s')
   \<Longrightarrow> \<exists>tr. trace s' = trace s @ tr \<and> only_found_removed env tr"
proof (induction groups arbitrary: s r s')
  case Nil
  then show ?case by (simp add: ofr_Nil)
next
  case (Cons g groups)
  obtain key ds where g: "g = (key, ds)" by (cases g)
  obtain q s1 where d: "decode_each_processor env ds (noteProcessors s) s = (q, s1)"
    by (metis prod.exhaust)
  note u1 = ofr_decode_each_processor [OF d]
  show ?case
  proof (cases q)
    case (Inl e)
    with Cons.prems d u1 g show ?thesis by simp
  next
    case (Inr ns)
    obtain q2 s2 where d2: "decode_each_tx env groups s1 = (q2, s2)"
      by (metis prod.exhaust)
    with Cons.prems d Inr g have "s' = s2" by (auto split: sum.splits)
    with Cons.IH [OF d2] u1 show ?thesis by (blast intro: ofr_compose)
  qed
qed

lemma find_relevant_filter:
  "find_relevant env ns = Inr relevant \<Longrightarrow> relevant = filter (nullifier_found env) ns"
  by (induction ns arbitrary: relevant)
    (auto simp: nullifier_found_def split: sum.splits if_splits)

lemma ofr_db_removeNullifiedNotes:
  assumes "db_removeNullifiedNotes env rel pk s = (r, s')"
    and "\<forall>n \<in> set rel. nullifier_found env n"
  shows "\<exists>tr. trace s' = trace s @ tr \<and> only_found_removed env tr"
proof (rule ofr_single)
  show "trace s' = trace s @ [Call (RemoveNullifiedNotes rel pk)]"
    using assms(1)
    by (auto simp: db_removeNullifiedNotes_def record_call_def Let_def split: option.splits)
  show "only_found_removed env [Call (RemoveNullifiedNotes rel pk)]"
    using assms(2) by (simp add: only_found_removed_def)
qed

lemma ofr_remove_nullified:
  "remove_nullified env groups s = (r, s')
   \<Longrightarrow> \<exists>tr. trace s' = trace s @ tr \<and> only_found_removed env tr"
proof (induction groups arbitrary: s r s')
  case Nil
  then show ?case by (simp add: ofr_Nil)
next
  case (Cons g groups)
  obtain key ns where g: "g = (key, ns)" by (cases g)
  show ?case
  proof (cases "find_relevant env (map siloedNullifier ns)")
    case (Inl e)
    with Cons.prems g show ?thesis by (simp add: ofr_Nil)
  next
    case (Inr rel)
    from find_relevant_filter [OF Inr] have f: "\<forall>n \<in> set rel. nullifier_found env n" by simp
    obtain q s1 where d: "db_removeNullifiedNotes env rel (snd key) s = (q, s1)"
      by (metis prod.exhaust)
    note u1 = ofr_db_removeNullifiedNotes [OF d f]
    show ?thesis
    proof (cases q)
      case (Inl e)
      with Cons.prems g Inr d u1 show ?thesis by simp
    next
      case (Inr u)
      with Cons.prems g \<open>find_relevant env (map siloedNullifier ns) = Inr rel\<close> d
      have "remove_nullified env groups s1 = (r, s')" by simp
      from Cons.IH [OF this] u1 show ?thesis by (blast intro: ofr_compose)
    qed
  qed
qed

lemma ofr_no_calls: "removeNullifiedNotes_calls tr = [] \<Longrightarrow> only_found_removed env tr"
  unfolding only_found_removed_def by simp

lemma ofr_logs:
  "\<exists>tr. trace (s\<lparr>trace := trace s @ map (\<lambda>n. LogDecoded (f n) (g n) (h n)) ns\<rparr>) = trace s @ tr
        \<and> only_found_removed env tr"
proof -
  have "removeNullifiedNotes_calls (map (\<lambda>n. LogDecoded (f n) (g n) (h n)) ns) = []"
    by (induction ns) auto
  then have "only_found_removed env (map (\<lambda>n. LogDecoded (f n) (g n) (h n)) ns)"
    by (rule ofr_no_calls)
  then show ?thesis by simp
qed

lemma ofr_reprocess:
  assumes "reprocessDeferredNotesForContract env a s = (r, s')"
  shows "\<exists>tr. trace s' = trace s @ tr \<and> only_found_removed env tr"
proof -
  from assms consider
      (get) q where "db_getDeferredNotesByContract env a s = (q, s')"
    | (dec) q1 s1 g q where "db_getDeferredNotesByContract env a s = (q1, s1)"
        "decode_each_tx env g s1 = (q, s')"
    | (rem) q1 s1 g q2 s2 q where "db_getDeferredNotesByContract env a s = (q1, s1)"
        "decode_each_tx env g s1 = (q2, s2)" "db_removeDeferredNotesByContract env a s2 = (q, s')"
    | (add) q1 s1 g q2 s2 q3 s3 ns q where "db_getDeferredNotesByContract env a s = (q1, s1)"
        "decode_each_tx env g s1 = (q2, s2)" "db_removeDeferredNotesByContract env a s2 = (q3, s3)"
        "db_addNotes env ns s3 = (q, s')"
    | (nul) q1 s1 g q2 s2 q3 s3 ns q4 s4 g2 where "db_getDeferredNotesByContract env a s = (q1, s1)"
        "decode_each_tx env g s1 = (q2, s2)" "db_removeDeferredNotesByContract env a s2 = (q3, s3)"
        "db_addNotes env ns s3 = (q4, s4)"
        "remove_nullified env g2
           (s4\<lparr>trace := trace s4 @ map (\<lambda>n. LogDecoded (note_dao.contractAddress n)
                                 (note_dao.storageSlot n) (siloedNullifier n)) ns\<rparr>) = (r, s')"
    unfolding reprocessDeferredNotesForContract_def Let_def
    by (auto split: sum.splits prod.splits)
  then show ?thesis
  proof cases
    case get
    then show ?thesis by (rule ofr_db_getDeferredNotesByContract)
  next
    case dec
    then show ?thesis
      by (blast intro: ofr_compose ofr_db_getDeferredNotesByContract ofr_decode_each_tx)
  next
    case rem
    show ?thesis
      by (rule ofr_compose [OF ofr_compose [OF ofr_db_getDeferredNotesByContract [OF rem(1)]
              ofr_decode_each_tx [OF rem(2)]] ofr_db_removeDeferredNotesByContract [OF rem(3)]])
  next
    case add
    show ?thesis
      by (rule ofr_compose [OF ofr_compose [OF ofr_compose
              [OF ofr_db_getDeferredNotesByContract [OF add(1)] ofr_decode_each_tx [OF add(2)]]
              ofr_db_removeDeferredNotesByContract [OF add(3)]] ofr_db_addNotes [OF add(4)]])
  next
    case nul
    have 4: "\<exists>tr. trace s4 = trace s @ tr \<and> only_found_removed env tr"
      by (rule ofr_compose [OF ofr_compose [OF ofr_compose
              [OF ofr_db_getDeferredNotesByContract [OF nul(1)] ofr_decode_each_tx [OF nul(2)]]
              ofr_db_removeDeferredNotesByContract [OF nul(3)]] ofr_db_addNotes [OF nul(4)]])
    show ?thesis
      by (rule ofr_compose [OF ofr_compose [OF 4 ofr_logs] ofr_remove_nullified [OF nul(5)]])
  qed
qed

section \<open>The example states, evaluated\<close>

lemmas op_defs = start_def stop_def initialSync_def db_setBlockData_def record_call_def
  log_event_def addAccount_def new_NoteProcessor_def new_Synchronizer_def
  workNoteProcessorCatchUp_def getSynchedBlockNumber_def

lemmas work_defs = work_def work_try_def getSynchedBlockNumber_def attachLogs_def js_at_def
  js_last_def setBlockDataFromBlock_def db_setBlockData_def record_call_def log_event_def
  process_def getTotalLogCount_def example_block_def Let_def

lemma synced_account_eq:
  "synced_account =
     \<lparr>noteProcessors = [], running = True, initialSyncBlockNumber = 5,
      noteProcessorsToCatchUp =
        [\<lparr>note_processor.publicKey = pk1, keyStore = 0, syncedToBlock = 5\<rparr>],
      db = \<lparr>blockNumber = Some 5, blockHeader = Some example_header, storedNotes = [],
             storedDeferredNotes = []\<rparr>,
      trace = [Call (SetBlockData 5 example_header), Log ''Initial sync complete'',
               Log ''Started loop'']\<rparr>"
  by (simp add: synced_account_def op_defs idle_env_def empty_db_def find_None_iff)

lemma caught_up_account_eq:
  "caught_up_account =
     \<lparr>noteProcessors = [\<lparr>note_processor.publicKey = pk1, keyStore = 0, syncedToBlock = 5\<rparr>],
      running = True, initialSyncBlockNumber = 5, noteProcessorsToCatchUp = [],
      db = \<lparr>blockNumber = Some 5, blockHeader = Some example_header, storedNotes = [],
             storedDeferredNotes = []\<rparr>,
      trace = [Call (SetBlockData 5 example_header), Log ''Initial sync complete'',
               Log ''Started loop'']\<rparr>"
  by (simp add: caught_up_account_def op_defs idle_env_def empty_db_def find_None_iff)

lemma late_start_account_eq:
  "late_start_account =
     \<lparr>noteProcessors = [\<lparr>note_processor.publicKey = pk1, keyStore = 0, syncedToBlock = 5\<rparr>],
      running = True, initialSyncBlockNumber = 9, noteProcessorsToCatchUp = [],
      db = \<lparr>blockNumber = Some 5, blockHeader = Some example_header, storedNotes = [],
             storedDeferredNotes = []\<rparr>,
      trace = [Call (SetBlockData 5 example_header), Log ''Initial sync complete'',
               Log ''Started loop'', Call (SetBlockData 9 example_header)]\<rparr>"
  by (simp add: late_start_account_def caught_up_account_eq initialSync_def db_setBlockData_def
      record_call_def restart_env_def idle_env_def)

lemma lagging_account_eq:
  "lagging_account =
     \<lparr>noteProcessors = [], running = True, initialSyncBlockNumber = 5,
      noteProcessorsToCatchUp =
        [\<lparr>note_processor.publicKey = pk1, keyStore = 0, syncedToBlock = 0\<rparr>],
      db = \<lparr>blockNumber = Some 5, blockHeader = Some example_header, storedNotes = [],
             storedDeferredNotes = []\<rparr>,
      trace = [Call (SetBlockData 5 example_header), Log ''Initial sync complete'',
               Log ''Started loop'']\<rparr>"
  by (simp add: lagging_account_def op_defs idle_env_def empty_db_def find_None_iff)

lemma two_accounts_eq:
  "run two_accounts_steps (new_Synchronizer 1 empty_db) =
     \<lparr>noteProcessors = [\<lparr>note_processor.publicKey = pk1, keyStore = 0, syncedToBlock = 5\<rparr>],
      running = True, initialSyncBlockNumber = 5,
      noteProcessorsToCatchUp =
        [\<lparr>note_processor.publicKey = pk2, keyStore = 0, syncedToBlock = 0\<rparr>],
      db = \<lparr>blockNumber = Some 5, blockHeader = Some example_header, storedNotes = [],
             storedDeferredNotes = []\<rparr>,
      trace = [Call (SetBlockData 5 example_header), Log ''Initial sync complete'',
               Log ''Started loop'']\<rparr>"
  by (simp add: two_accounts_steps_def op_defs idle_env_def empty_db_def find_None_iff
      pk1_def pk2_def)

lemma example_states:
  "map (\<lambda>t. blockNumber (db t)) (states example_steps (new_Synchronizer 1 empty_db))
     = [None, Some 5, Some 5, Some 5, Some 6]"
  by (simp add: example_steps_def start_def initialSync_def addAccount_def new_NoteProcessor_def
      new_Synchronizer_def workNoteProcessorCatchUp_def work_defs one_block_env_def idle_env_def
      empty_db_def find_None_iff)

lemma reprocess_example:
  "removeNullifiedNotes_calls
     (drop (length (trace deferred_account))
        (trace (snd (reprocessDeferredNotesForContract nullified_env 3 deferred_account))))
   = [([200], pk1)]"
  by (simp add: deferred_account_def caught_up_account_eq reprocessDeferredNotesForContract_def
      db_getDeferredNotesByContract_def db_removeDeferredNotesByContract_def db_addNotes_def
      db_removeNullifiedNotes_def decodeDeferredNotes_def group_by_def truthy_def
      record_call_def nullified_env_def idle_env_def example_deferred_ref_def
      example_note_dao_def Let_def)

section \<open>Errors in \<open>work\<close>\<close>

text \<open>
  Claim C1. An error thrown inside the \<open>try\<close> of \<open>work\<close> does not reach the
  caller: \<open>work\<close> logs it and returns \<open>false\<close>. The statement goes through the
  \<open>try\<close> in the order of the source, with hypotheses on the answers of the node, of
  \<open>attachLogs\<close> and of the database only: \<open>getLogs\<close> fails for the encrypted
  logs; it fails for the unencrypted logs; \<open>getBlocks\<close> fails; \<open>attachLogs\<close>
  throws; no block of the batch is numbered \<open>from\<close> or higher, so that
  \<open>setBlockDataFromBlock\<close> destructures \<open>undefined\<close>; \<open>db.setBlockData\<close>
  throws; a note processor throws in \<open>process\<close>. In the first six cases the state
  is as it was but for the trace, and the next call computes the same \<open>from\<close>. In
  the last case the block number of the database is the number of the last block of the
  batch and the next \<open>from\<close> is one above it, unless that number is below
  \<open>initialSyncBlockNumber\<close>: then the block number and the next \<open>from\<close> are as
  they were.
\<close>

theorem work_error_is_caught:
  "(let fromBlock = getSynchedBlockNumber s + 1;
        contexts = map (\<lambda>b. \<lparr>block = b\<rparr>) (filter (\<lambda>b. number b \<ge> fromBlock) attached);
        b = block (last contexts);
        setBlockData = SetBlockData (number b) (header_of env b);
        attach = attach_each env (take (length bs) enc) (take (length bs) unenc) 0 bs;
        caught = (\<lambda>e t. work env limit s
                            = (False, log_event (LogError ''Error in synchronizer work'' e) t)
                          \<and> getSynchedBlockNumber (snd (work env limit s)) + 1 = fromBlock)
    in (node_getLogs env fromBlock limit ENCRYPTED = Inl e \<longrightarrow> caught e s)
     \<and> (node_getLogs env fromBlock limit ENCRYPTED = Inr enc \<and> enc \<noteq> []
          \<and> node_getLogs env fromBlock limit UNENCRYPTED = Inl e \<longrightarrow> caught e s)
     \<and> (node_getLogs env fromBlock limit ENCRYPTED = Inr enc \<and> enc \<noteq> []
          \<and> node_getLogs env fromBlock limit UNENCRYPTED = Inr unenc \<and> unenc \<noteq> []
          \<and> node_getBlocks env fromBlock (int (length enc)) = Inl e \<longrightarrow> caught e s)
     \<and> (fetched env fromBlock limit enc unenc bs \<and> attach = Inl e \<longrightarrow> caught e s)
     \<and> (fetched env fromBlock limit enc unenc bs \<and> attach = Inr attached \<and> contexts = []
          \<longrightarrow> caught TypeError s)
     \<and> (fetched env fromBlock limit enc unenc bs \<and> attach = Inr attached \<and> contexts \<noteq> []
          \<and> number b \<ge> initialSyncBlockNumber s \<and> throws env setBlockData = Some e
          \<longrightarrow> caught e (record_call setBlockData s))
     \<and> (fetched env fromBlock limit enc unenc bs \<and> attach = Inr attached \<and> contexts \<noteq> []
          \<and> (number b < initialSyncBlockNumber s \<or> throws env setBlockData = None)
          \<and> find (\<lambda>p. throws env (Process (note_processor.publicKey p) contexts
                                     (take (length bs) enc)) \<noteq> None) (noteProcessors s) = Some np
          \<and> throws env (Process (note_processor.publicKey np) contexts (take (length bs) enc))
              = Some e
          \<longrightarrow> fst (work env limit s) = False
              \<and> last (trace (snd (work env limit s)))
                  = LogError ''Error in synchronizer work'' e
              \<and> blockNumber (db (snd (work env limit s)))
                  = (if number b < initialSyncBlockNumber s then blockNumber (db s)
                     else Some (number b))
              \<and> getSynchedBlockNumber (snd (work env limit s)) + 1
                  = (if number b < initialSyncBlockNumber s then fromBlock
                     else number b + 1)))"
proof -
  define fromBlock where "fromBlock = getSynchedBlockNumber s + 1"
  define contexts where
    "contexts = map (\<lambda>b. \<lparr>block = b\<rparr>) (filter (\<lambda>b. number b \<ge> fromBlock) attached)"
  define b where "b = block (last contexts)"
  define setBlockData where "setBlockData = (SetBlockData (number b) (header_of env b) :: 'a call)"
  define enc' where "enc' = take (length bs) enc"
  define attach where "attach = attach_each env enc' (take (length bs) unenc) 0 bs"
  define caught where "caught = (\<lambda>e t. work env limit s
                            = (False, log_event (LogError ''Error in synchronizer work'' e) t)
                          \<and> getSynchedBlockNumber (snd (work env limit s)) + 1 = fromBlock)"
  have caughtI: "caught e' t" if "work_try env fromBlock limit s = (Inl e', t)"
    "db t = db s" "initialSyncBlockNumber t = initialSyncBlockNumber s" for e' t
  proof -
    have w: "work env limit s = (False, log_event (LogError ''Error in synchronizer work'' e') t)"
      using that(1) by (simp add: work_def fromBlock_def)
    have "getSynchedBlockNumber (log_event (LogError ''Error in synchronizer work'' e') t) + 1
        = getSynchedBlockNumber s + 1"
      by (rule same_from) (simp_all add: log_event_def that)
    with w show ?thesis by (simp add: caught_def fromBlock_def)
  qed
  have 1: "caught e s" if "node_getLogs env fromBlock limit ENCRYPTED = Inl e"
    by (rule caughtI) (simp_all add: work_try_def that)
  have 2: "caught e s" if "node_getLogs env fromBlock limit ENCRYPTED = Inr enc" "enc \<noteq> []"
    "node_getLogs env fromBlock limit UNENCRYPTED = Inl e"
    by (rule caughtI) (simp_all add: work_try_def that)
  have 3: "caught e s" if "node_getLogs env fromBlock limit ENCRYPTED = Inr enc" "enc \<noteq> []"
    "node_getLogs env fromBlock limit UNENCRYPTED = Inr unenc" "unenc \<noteq> []"
    "node_getBlocks env fromBlock (int (length enc)) = Inl e"
    by (rule caughtI) (simp_all add: work_try_def that)
  have 4: "caught e s" if f: "fetched env fromBlock limit enc unenc bs" and a: "attach = Inl e"
  proof (rule caughtI)
    have e1: "(if length bs \<noteq> length enc then take (length bs) enc else enc) = enc'"
      by (simp add: enc'_def)
    have e2: "(if length bs \<noteq> length unenc then take (length bs) unenc else unenc)
        = take (length bs) unenc" by simp
    from f a show "work_try env fromBlock limit s = (Inl e, s)"
      unfolding work_try_def
      by (simp add: fetched_def Let_def e1 e2 attach_def [symmetric])
  qed simp_all
  have wt: "work_try env fromBlock limit s =
     (case setBlockDataFromBlock env (js_last contexts) s of
        (Inl e, s1) \<Rightarrow> (Inl e, s1)
      | (Inr u, s1) \<Rightarrow>
          (case process_each env contexts enc' (noteProcessors s1)
                  (log_event (LogForwarding (getTotalLogCount enc')
                                (length (noteProcessors s1))) s1) of
             ((r, nps), s3) \<Rightarrow>
               (case r of Some e \<Rightarrow> (Inl e, s3\<lparr>noteProcessors := nps\<rparr>)
                        | None \<Rightarrow> (Inr True, s3\<lparr>noteProcessors := nps\<rparr>))))"
    if "fetched env fromBlock limit enc unenc bs" "attach = Inr attached"
    using work_try_fetched [OF that(1) that(2) [unfolded attach_def enc'_def], of s]
    by (simp only: contexts_def enc'_def)
  have 5: "caught TypeError s"
    if "fetched env fromBlock limit enc unenc bs" "attach = Inr attached" "contexts = []"
    by (rule caughtI)
      (simp_all add: wt [OF that(1,2)] that(3) js_last_def setBlockDataFromBlock_def)
  have 6: "caught e (record_call setBlockData s)"
    if "fetched env fromBlock limit enc unenc bs" "attach = Inr attached" "contexts \<noteq> []"
      "number b \<ge> initialSyncBlockNumber s" "throws env setBlockData = Some e"
  proof (rule caughtI)
    have "setBlockDataFromBlock env (Some (last contexts)) s = (Inl e, record_call setBlockData s)"
      using setBlockDataFromBlock_open [of s "last contexts" env] that(4,5)
      by (simp add: b_def setBlockData_def)
    then show "work_try env fromBlock limit s = (Inl e, record_call setBlockData s)"
      by (simp add: wt [OF that(1,2)] js_last_def that(3))
  qed (simp_all add: record_call_def)
  have 7: "fst (work env limit s) = False
              \<and> last (trace (snd (work env limit s)))
                  = LogError ''Error in synchronizer work'' e
              \<and> blockNumber (db (snd (work env limit s)))
                  = (if number b < initialSyncBlockNumber s then blockNumber (db s)
                     else Some (number b))
              \<and> getSynchedBlockNumber (snd (work env limit s)) + 1
                  = (if number b < initialSyncBlockNumber s then fromBlock
                     else number b + 1)"
    if f: "fetched env fromBlock limit enc unenc bs" and a: "attach = Inr attached"
      and ne: "contexts \<noteq> []"
      and ok: "number b < initialSyncBlockNumber s \<or> throws env setBlockData = None"
      and fd: "find (\<lambda>p. throws env (Process (note_processor.publicKey p) contexts enc') \<noteq> None)
                (noteProcessors s) = Some np"
      and th: "throws env (Process (note_processor.publicKey np) contexts enc') = Some e"
  proof -
    obtain s1 where sb: "setBlockDataFromBlock env (Some (last contexts)) s = (Inr (), s1)"
      and np1: "noteProcessors s1 = noteProcessors s"
      and bn1: "blockNumber (db s1) = (if number b < initialSyncBlockNumber s
                   then blockNumber (db s) else Some (number b))"
    proof (cases "number b < initialSyncBlockNumber s")
      case True
      with setBlockDataFromBlock_closed [of "last contexts" s env] that show ?thesis
        by (simp add: b_def)
    next
      case False
      with ok have "throws env setBlockData = None" by simp
      with setBlockDataFromBlock_open [of s "last contexts" env] False that show ?thesis
        by (simp add: b_def setBlockData_def record_call_def)
    qed
    define s2 where "s2 = log_event (LogForwarding (getTotalLogCount enc')
                                (length (noteProcessors s))) s1"
    from process_each_first_throw [OF fd th, of s2] obtain nps' s3 where
      pe: "process_each env contexts enc' (noteProcessors s) s2 = ((Some e, nps'), s3)" by blast
    have wt': "work_try env fromBlock limit s = (Inl e, s3\<lparr>noteProcessors := nps'\<rparr>)"
      by (simp add: wt [OF f a] js_last_def ne sb np1 s2_def [symmetric] pe)
    have w: "work env limit s
        = (False, log_event (LogError ''Error in synchronizer work'' e) (s3\<lparr>noteProcessors := nps'\<rparr>))"
      using wt' by (simp add: work_def fromBlock_def)
    from process_each_frame [OF pe] have "blockNumber (db s3) = blockNumber (db s2)"
      "initialSyncBlockNumber s3 = initialSyncBlockNumber s2" by simp_all
    with setBlockDataFromBlock_frame(3) [OF sb]
    have fr: "blockNumber (db s3) = blockNumber (db s1)"
      "initialSyncBlockNumber s3 = initialSyncBlockNumber s"
      by (simp_all add: s2_def log_event_def)
    have "getSynchedBlockNumber (log_event (LogError ''Error in synchronizer work'' e)
              (s3\<lparr>noteProcessors := nps'\<rparr>)) + 1
        = (if number b < initialSyncBlockNumber s then fromBlock else number b + 1)"
      using fr bn1
      by (simp add: getSynchedBlockNumber_def log_event_def fromBlock_def split: option.splits)
    with w bn1 fr show ?thesis by (simp add: log_event_def)
  qed
  show ?thesis
    unfolding Let_def
    using 1 2 3 4 5 6 7
    unfolding caught_def attach_def enc'_def setBlockData_def b_def contexts_def fromBlock_def
    by blast
qed

text \<open>
  The theorem at work, at cursor 5 with one active note processor, once for each of the
  seven cases: the node times out in \<open>getLogs\<close> for the encrypted logs, for the
  unencrypted logs, and in \<open>getBlocks\<close>; \<open>attachLogs\<close> throws; the node answers
  with block 5 alone; \<open>db.setBlockData\<close> throws on block 8; \<open>process\<close> throws on
  block 6, after block 6 was stored, and once more with \<open>initialSyncBlockNumber\<close>
  at 9, where block 6 is not stored.
\<close>

theorem work_error_is_caught_witness:
  "work rpc_down_env 1 caught_up_account
     = (False, log_event (LogError ''Error in synchronizer work'' (NodeError ''timeout''))
                 caught_up_account)
   \<and> work unenc_down_env 1 caught_up_account
     = (False, log_event (LogError ''Error in synchronizer work'' (NodeError ''timeout''))
                 caught_up_account)
   \<and> work blocks_down_env 1 caught_up_account
     = (False, log_event (LogError ''Error in synchronizer work'' (NodeError ''timeout''))
                 caught_up_account)
   \<and> work attach_fails_env 1 caught_up_account
     = (False, log_event (LogError ''Error in synchronizer work'' (Error ''attachLogs''))
                 caught_up_account)
   \<and> work only_stale_env 1 caught_up_account
     = (False, log_event (LogError ''Error in synchronizer work'' TypeError) caught_up_account)
   \<and> work setBlockData_fails_env 1 caught_up_account
     = (False, log_event (LogError ''Error in synchronizer work'' (DatabaseError ''setBlockData''))
                 (record_call (SetBlockData 8 example_header) caught_up_account))
   \<and> getSynchedBlockNumber (snd (work setBlockData_fails_env 1 caught_up_account)) + 1 = 6
   \<and> fst (work process_fails_env 1 caught_up_account) = False
   \<and> last (trace (snd (work process_fails_env 1 caught_up_account)))
       = LogError ''Error in synchronizer work'' (DatabaseError ''addNotes'')
   \<and> blockNumber (db (snd (work process_fails_env 1 caught_up_account))) = Some 6
   \<and> getSynchedBlockNumber (snd (work process_fails_env 1 caught_up_account)) + 1 = 7
   \<and> fst (work process_fails_env 1 late_start_account) = False
   \<and> blockNumber (db (snd (work process_fails_env 1 late_start_account))) = Some 5
   \<and> getSynchedBlockNumber (snd (work process_fails_env 1 late_start_account)) + 1 = 6"
proof -
  note envs = rpc_down_env_def unenc_down_env_def blocks_down_env_def attach_fails_env_def
    only_stale_env_def setBlockData_fails_env_def process_fails_env_def one_block_env_def
    five_logs_env_def idle_env_def
  note defs = fetched_def header_of_def attachLogs_def js_at_def getSynchedBlockNumber_def
    caught_up_account_eq late_start_account_eq example_block_def attached_block_def
    five_logs_def example_header_def record_call_def log_event_def
  let ?np = "\<lparr>note_processor.publicKey = pk1, keyStore = 0, syncedToBlock = 5\<rparr>"
  have c1: "work rpc_down_env 1 caught_up_account
     = (False, log_event (LogError ''Error in synchronizer work'' (NodeError ''timeout''))
                 caught_up_account)"
    using work_error_is_caught [where env = rpc_down_env and s = caught_up_account and limit = 1
        and e = "NodeError ''timeout''" and enc = "[]" and unenc = "[]" and bs = "[]"
        and attached = "[]" and np = ?np, unfolded Let_def, THEN conjunct1]
    by (simp add: envs defs)
  have c2: "work unenc_down_env 1 caught_up_account
     = (False, log_event (LogError ''Error in synchronizer work'' (NodeError ''timeout''))
                 caught_up_account)"
    using work_error_is_caught [where env = unenc_down_env and s = caught_up_account and limit = 1
        and e = "NodeError ''timeout''" and enc = five_logs and unenc = "[]" and bs = "[]"
        and attached = "[]" and np = ?np, unfolded Let_def, THEN conjunct2, THEN conjunct1]
    by (simp add: envs defs)
  have c3: "work blocks_down_env 1 caught_up_account
     = (False, log_event (LogError ''Error in synchronizer work'' (NodeError ''timeout''))
                 caught_up_account)"
    using work_error_is_caught [where env = blocks_down_env and s = caught_up_account and limit = 1
        and e = "NodeError ''timeout''" and enc = five_logs and unenc = five_logs and bs = "[]"
        and attached = "[]" and np = ?np, unfolded Let_def, THEN conjunct2, THEN conjunct2,
        THEN conjunct1]
    by (simp add: envs defs)
  have c4: "work attach_fails_env 1 caught_up_account
     = (False, log_event (LogError ''Error in synchronizer work'' (Error ''attachLogs''))
                 caught_up_account)"
    using work_error_is_caught [where env = attach_fails_env and s = caught_up_account and limit = 1
        and e = "Error ''attachLogs''" and enc = five_logs and unenc = five_logs
        and bs = "[example_block 6, example_block 7, example_block 8]"
        and attached = "[]" and np = ?np, unfolded Let_def, THEN conjunct2, THEN conjunct2,
        THEN conjunct2, THEN conjunct1]
    by (simp add: envs defs)
  have c5: "work only_stale_env 1 caught_up_account
     = (False, log_event (LogError ''Error in synchronizer work'' TypeError) caught_up_account)"
    using work_error_is_caught [where env = only_stale_env and s = caught_up_account and limit = 1
        and e = TypeError and enc = "take 3 five_logs" and unenc = "take 3 five_logs"
        and bs = "[example_block 5]"
        and attached = "[(example_block 5)\<lparr>newEncryptedLogs := Some (five_logs ! 0),
                                            newUnencryptedLogs := Some (five_logs ! 0)\<rparr>]"
        and np = ?np, unfolded Let_def, THEN conjunct2, THEN conjunct2,
        THEN conjunct2, THEN conjunct2, THEN conjunct1]
    by (simp add: envs defs)
  have c6: "work setBlockData_fails_env 1 caught_up_account
     = (False, log_event (LogError ''Error in synchronizer work'' (DatabaseError ''setBlockData''))
                 (record_call (SetBlockData 8 example_header) caught_up_account))
     \<and> getSynchedBlockNumber (snd (work setBlockData_fails_env 1 caught_up_account)) + 1 = 6"
    using work_error_is_caught [where env = setBlockData_fails_env and s = caught_up_account
        and limit = 1 and e = "DatabaseError ''setBlockData''" and enc = five_logs
        and unenc = five_logs and bs = "[example_block 6, example_block 7, example_block 8]"
        and attached = "[attached_block 6 0, attached_block 7 1, attached_block 8 2]"
        and np = ?np, unfolded Let_def, THEN conjunct2, THEN conjunct2,
        THEN conjunct2, THEN conjunct2, THEN conjunct2, THEN conjunct1]
    by (simp add: envs defs)
  have c7: "fst (work process_fails_env 1 caught_up_account) = False
   \<and> last (trace (snd (work process_fails_env 1 caught_up_account)))
       = LogError ''Error in synchronizer work'' (DatabaseError ''addNotes'')
   \<and> blockNumber (db (snd (work process_fails_env 1 caught_up_account))) = Some 6
   \<and> getSynchedBlockNumber (snd (work process_fails_env 1 caught_up_account)) + 1 = 7"
    using work_error_is_caught [where env = process_fails_env and s = caught_up_account
        and limit = 1 and e = "DatabaseError ''addNotes''" and enc = "[[]]"
        and unenc = "[[]]" and bs = "[example_block 6]"
        and attached = "[(example_block 6)\<lparr>newEncryptedLogs := Some [],
                                            newUnencryptedLogs := Some []\<rparr>]"
        and np = ?np, unfolded Let_def, THEN conjunct2, THEN conjunct2,
        THEN conjunct2, THEN conjunct2, THEN conjunct2, THEN conjunct2]
    by (simp add: envs defs)
  have c8: "fst (work process_fails_env 1 late_start_account) = False
   \<and> blockNumber (db (snd (work process_fails_env 1 late_start_account))) = Some 5
   \<and> getSynchedBlockNumber (snd (work process_fails_env 1 late_start_account)) + 1 = 6"
    using work_error_is_caught [where env = process_fails_env and s = late_start_account
        and limit = 1 and e = "DatabaseError ''addNotes''" and enc = "[[]]"
        and unenc = "[[]]" and bs = "[example_block 6]"
        and attached = "[(example_block 6)\<lparr>newEncryptedLogs := Some [],
                                            newUnencryptedLogs := Some []\<rparr>]"
        and np = ?np, unfolded Let_def, THEN conjunct2, THEN conjunct2,
        THEN conjunct2, THEN conjunct2, THEN conjunct2, THEN conjunct2]
    by (simp add: envs defs)
  note c6a = c6 [THEN conjunct1] and c6b = c6 [THEN conjunct2]
  note c7a = c7 [THEN conjunct1] and c7b = c7 [THEN conjunct2, THEN conjunct1]
    and c7c = c7 [THEN conjunct2, THEN conjunct2, THEN conjunct1]
    and c7d = c7 [THEN conjunct2, THEN conjunct2, THEN conjunct2]
  note c8a = c8 [THEN conjunct1] and c8b = c8 [THEN conjunct2, THEN conjunct1]
    and c8c = c8 [THEN conjunct2, THEN conjunct2]
  show ?thesis by (intro conjI c1 c2 c3 c4 c5 c6a c6b c7a c7b c7c c7d c8a c8b c8c)
qed

text \<open>
  Claim C1 as worded fails when a note processor throws: \<open>setBlockDataFromBlock\<close>
  runs before the loop over the note processors. Here the cursor is at 5, the only
  \<open>process\<close> call fails on a database write, \<open>work\<close> returns \<open>false\<close>, and the
  header of block 6 is stored all the same: the failed call worked from block 6, the
  next one works from block 7.
\<close>

theorem work_error_advances_cursor:
  "fst (work_try process_fails_env (getSynchedBlockNumber caught_up_account + 1) 1 caught_up_account)
     = Inl (DatabaseError ''addNotes'')
   \<and> fst (work process_fails_env 1 caught_up_account) = False
   \<and> getSynchedBlockNumber caught_up_account + 1 = 6
   \<and> getSynchedBlockNumber (snd (work process_fails_env 1 caught_up_account)) + 1 = 7"
  by (simp add: caught_up_account_eq work_defs process_fails_env_def one_block_env_def
      idle_env_def)

section \<open>Catch-up mode\<close>

text \<open>
  Claim C2. When the head of the catch-up list lags behind the block number of the
  database, the limit is at least one and the node answers with no encrypted logs or
  with no blocks, \<open>workNoteProcessorCatchUp\<close> throws inside its \<open>try\<close>, catches the
  error, logs it and returns \<open>false\<close>; nothing else changes.
\<close>

theorem catchUp_empty_fetch:
  assumes cu: "noteProcessorsToCatchUp s = np # others"
    and lag: "syncedToBlock np < getSynchedBlockNumber s"
    and lim: "1 \<le> limit"
    and fetch: "node_getLogs env (syncedToBlock np + 1)
                  (min limit (getSynchedBlockNumber s - (syncedToBlock np + 1) + 1)) ENCRYPTED
                = Inr enc"
    and empty: "enc = [] \<or> node_getBlocks env (syncedToBlock np + 1) (int (length enc)) = Inr []"
  shows "workNoteProcessorCatchUp env limit s
         = (Inr False,
            log_event (LogError ''Error in synchronizer workNoteProcessorCatchUp''
                (Error (if enc = [] then ''No encrypted logs in processor catch up mode''
                        else ''No blocks in processor catch up mode''))) s)"
proof -
  define fromBlock where "fromBlock = syncedToBlock np + 1"
  define lim where "lim = min limit (getSynchedBlockNumber s - fromBlock + 1)"
  have l: "\<not> lim < 1" using lag lim by (simp add: lim_def fromBlock_def)
  have fetch': "node_getLogs env fromBlock lim ENCRYPTED = Inr enc"
    using fetch by (simp only: lim_def fromBlock_def)
  have empty': "enc = [] \<or> node_getBlocks env fromBlock (int (length enc)) = Inr []"
    using empty by (simp only: fromBlock_def)
  have "catchUp_try env np fromBlock lim (getSynchedBlockNumber s) s
      = (Inl (Error (if enc = [] then ''No encrypted logs in processor catch up mode''
                        else ''No blocks in processor catch up mode'')), s)"
    using empty' by (auto simp: catchUp_try_def fetch')
  then show ?thesis
    using lag l
    by (simp add: workNoteProcessorCatchUp_def cu Let_def
        fromBlock_def [symmetric] lim_def [symmetric])
qed

text \<open>
  The theorem at work: an account added from block 1 on lags behind the database at
  block 5, and the node has no logs for it.
\<close>

theorem catchUp_empty_fetch_witness:
  "noteProcessorsToCatchUp lagging_account
     = [\<lparr>note_processor.publicKey = pk1, keyStore = 0, syncedToBlock = 0\<rparr>]
   \<and> (0::int) < getSynchedBlockNumber lagging_account
   \<and> node_getLogs idle_env (0 + 1) (min 1 (getSynchedBlockNumber lagging_account - (0 + 1) + 1))
        ENCRYPTED = Inr []
   \<and> workNoteProcessorCatchUp idle_env 1 lagging_account
         = (Inr False,
            log_event (LogError ''Error in synchronizer workNoteProcessorCatchUp''
                (Error ''No encrypted logs in processor catch up mode'')) lagging_account)"
proof -
  let ?np = "\<lparr>note_processor.publicKey = pk1, keyStore = 0, syncedToBlock = 0\<rparr>"
  have cu: "noteProcessorsToCatchUp lagging_account = ?np # []"
    by (simp add: lagging_account_eq)
  have lag: "syncedToBlock ?np < getSynchedBlockNumber lagging_account"
    by (simp add: lagging_account_eq getSynchedBlockNumber_def)
  have lim: "(1::int) \<le> 1" by simp
  have fetch: "node_getLogs idle_env (syncedToBlock ?np + 1)
        (min 1 (getSynchedBlockNumber lagging_account - (syncedToBlock ?np + 1) + 1)) ENCRYPTED
        = Inr []"
    by (simp add: idle_env_def)
  have empty: "([] :: l2_block_l2_logs list) = []
      \<or> node_getBlocks idle_env (syncedToBlock ?np + 1) (int (length ([] :: l2_block_l2_logs list)))
          = Inr []"
    by simp
  from catchUp_empty_fetch [OF cu lag lim fetch empty] cu lag fetch
  show ?thesis by simp
qed

text \<open>
  Claim C2 as worded fails: the processor lags (it is synced to block 0, the database
  is at block 5), the node answers with no encrypted logs, and the call returns
  \<open>false\<close> to its caller instead of raising.
\<close>

theorem catchUp_empty_fetch_is_caught:
  "syncedToBlock (hd (noteProcessorsToCatchUp lagging_account))
     < getSynchedBlockNumber lagging_account
   \<and> node_getLogs idle_env 1 1 ENCRYPTED = Inr []
   \<and> fst (workNoteProcessorCatchUp idle_env 1 lagging_account) = Inr False"
  by (simp add: lagging_account_eq workNoteProcessorCatchUp_def catchUp_try_def
      getSynchedBlockNumber_def idle_env_def Let_def)

text \<open>
  Claim C3. When the head of the catch-up list is already synced to the block number of
  the database or beyond, \<open>workNoteProcessorCatchUp\<close> removes it from the catch-up
  list, appends it to the active list and returns \<open>true\<close>. It changes nothing else:
  nothing is logged on this path, so no caught-up event is emitted.
\<close>

theorem catchUp_already_synced:
  assumes "noteProcessorsToCatchUp s = np # others"
    and "syncedToBlock np \<ge> getSynchedBlockNumber s"
  shows "workNoteProcessorCatchUp env limit s
         = (Inr True, s\<lparr>noteProcessorsToCatchUp := others,
                        noteProcessors := noteProcessors s @ [np]\<rparr>)"
  using assms by (simp add: workNoteProcessorCatchUp_def)

text \<open>
  The theorem at work: an account added from block 6 on, with the database at block 5.
\<close>

theorem catchUp_already_synced_witness:
  "noteProcessorsToCatchUp synced_account
     = [\<lparr>note_processor.publicKey = pk1, keyStore = 0, syncedToBlock = 5\<rparr>]
   \<and> (5::int) \<ge> getSynchedBlockNumber synced_account
   \<and> workNoteProcessorCatchUp idle_env 1 synced_account
       = (Inr True,
          synced_account\<lparr>noteProcessorsToCatchUp := [],
            noteProcessors :=
              [\<lparr>note_processor.publicKey = pk1, keyStore = 0, syncedToBlock = 5\<rparr>]\<rparr>)"
proof -
  let ?np = "\<lparr>note_processor.publicKey = pk1, keyStore = 0, syncedToBlock = 5\<rparr>"
  have cu: "noteProcessorsToCatchUp synced_account = ?np # []"
    by (simp add: synced_account_eq)
  have sy: "syncedToBlock ?np \<ge> getSynchedBlockNumber synced_account"
    by (simp add: synced_account_eq getSynchedBlockNumber_def)
  have np: "noteProcessors synced_account = []" by (simp add: synced_account_eq)
  from catchUp_already_synced [OF cu sy, of idle_env 1] cu sy np show ?thesis by simp
qed

text \<open>
  Claim C3 as worded fails in its event: an account added from block 6 on, with the
  database at block 5, is promoted by the first call, which returns \<open>true\<close>, and the
  trace holds no caught-up event for it afterwards.
\<close>

theorem catchUp_already_synced_no_event:
  "syncedToBlock (hd (noteProcessorsToCatchUp synced_account))
     \<ge> getSynchedBlockNumber synced_account
   \<and> fst (workNoteProcessorCatchUp idle_env 1 synced_account) = Inr True
   \<and> NoteProcessorCaughtUp pk1
        \<notin> set (trace (snd (workNoteProcessorCatchUp idle_env 1 synced_account)))"
  by (simp add: synced_account_eq workNoteProcessorCatchUp_def getSynchedBlockNumber_def Let_def)

section \<open>The block number of the database\<close>

lemma exec_only_work:
  assumes "\<not> runs_initialSync operation s" "\<forall>limit. operation \<noteq> Work limit"
  shows "blockNumber (db (exec env operation s)) = blockNumber (db s)"
proof (cases operation)
  case Start
  with assms show ?thesis by (simp add: runs_initialSync_def start_blockNumber)
next
  case Stop
  then show ?thesis by (simp add: stop_def log_event_def)
next
  case InitialSync
  with assms show ?thesis by (simp add: runs_initialSync_def)
next
  case (Work l)
  with assms show ?thesis by simp
next
  case (WorkNoteProcessorCatchUp l)
  then show ?thesis by (simp add: workNoteProcessorCatchUp_cursor)
next
  case (AddAccount pk ks b)
  then show ?thesis by (simp add: addAccount_def Let_def split: option.splits)
next
  case (ReprocessDeferredNotesForContract a)
  obtain r s' where "reprocessDeferredNotesForContract env a s = (r, s')" by (metis prod.exhaust)
  with ubn_reprocess [OF this] ReprocessDeferredNotesForContract show ?thesis
    by (simp add: unchanged_but_notes_def)
qed

lemma exec_cursor:
  assumes "runs_initialSync operation s \<longrightarrow> node_ahead env s"
  shows "cursor_le (blockNumber (db s)) (blockNumber (db (exec env operation s)))"
proof (cases "runs_initialSync operation s")
  case True
  with assms have na: "node_ahead env s" by simp
  from True show ?thesis
    by (auto simp: runs_initialSync_def start_blockNumber initialSync_cursor [OF na])
next
  case False
  show ?thesis
  proof (cases "\<exists>limit. operation = Work limit")
    case True
    then show ?thesis by (auto simp: work_cursor)
  next
    case False
    with exec_only_work [OF \<open>\<not> runs_initialSync operation s\<close>] show ?thesis
      by (simp add: cursor_le_refl)
  qed
qed

lemma states_cursor:
  "node_ahead_run steps s \<Longrightarrow>
   \<forall>t \<in> set (states steps s). cursor_le (blockNumber (db s)) (blockNumber (db t))"
proof (induction steps arbitrary: s)
  case Nil
  then show ?case by (simp add: cursor_le_refl)
next
  case (Cons step steps)
  obtain env operation where st: "step = (env, operation)" by (cases step)
  from Cons.prems st have a: "runs_initialSync operation s \<longrightarrow> node_ahead env s"
    and b: "node_ahead_run steps (exec env operation s)" by simp_all
  from exec_cursor [OF a] Cons.IH [OF b] show ?case
    by (auto simp: st cursor_le_refl intro: cursor_le_trans)
qed

text \<open>
  Claim C4. Along every run of operations the block number stored in the database
  never decreases, provided that, whenever the run executes \<open>initialSync\<close>, the
  latest block number the node reports is not below the block number of the database.
  An operation that is neither \<open>work\<close> nor an execution of \<open>initialSync\<close>
  leaves the block number as it is. (\<open>work\<close> stores the header of a block numbered
  at least \<open>from\<close> whatever the node returns, since it drops the blocks below
  \<open>from\<close>; the assumption on \<open>getBlocks\<close> is not needed.)
\<close>

theorem block_number_never_decreases:
  "(node_ahead_run steps s \<longrightarrow>
      sorted_wrt cursor_le (map (\<lambda>t. blockNumber (db t)) (states steps s)))
   \<and> (\<not> runs_initialSync operation t \<and> (\<forall>limit. operation \<noteq> Work limit) \<longrightarrow>
        blockNumber (db (exec env operation t)) = blockNumber (db t))"
proof (intro conjI impI)
  assume "node_ahead_run steps s"
  then show "sorted_wrt cursor_le (map (\<lambda>t. blockNumber (db t)) (states steps s))"
  proof (induction steps arbitrary: s)
    case Nil
    then show ?case by simp
  next
    case (Cons step steps)
    obtain env operation where st: "step = (env, operation)" by (cases step)
    from Cons.prems st have a: "runs_initialSync operation s \<longrightarrow> node_ahead env s"
      and b: "node_ahead_run steps (exec env operation s)" by simp_all
    from states_cursor [OF b] exec_cursor [OF a]
    have "\<forall>t \<in> set (states steps (exec env operation s)).
            cursor_le (blockNumber (db s)) (blockNumber (db t))"
      by (blast intro: cursor_le_trans)
    with Cons.IH [OF b] show ?case by (simp add: st)
  qed
next
  assume "\<not> runs_initialSync operation t \<and> (\<forall>limit. operation \<noteq> Work limit)"
  then show "blockNumber (db (exec env operation t)) = blockNumber (db t)"
    using exec_only_work by blast
qed

text \<open>
  The theorem at work: a synchronizer is started at block 5, an account is added and
  promoted, and \<open>work\<close> stores block 6.
\<close>

theorem block_number_never_decreases_witness:
  "node_ahead_run example_steps (new_Synchronizer 1 empty_db)
   \<and> sorted_wrt cursor_le [None, Some 5, Some 5, Some 5, Some 6]
   \<and> \<not> runs_initialSync (AddAccount pk2 0 1) caught_up_account
   \<and> blockNumber (db (exec idle_env (AddAccount pk2 0 1) caught_up_account))
       = blockNumber (db caught_up_account)"
proof -
  have h1: "node_ahead_run example_steps (new_Synchronizer 1 empty_db)"
    by (simp add: example_steps_def runs_initialSync_def node_ahead_def cursor_le_def
        new_Synchronizer_def empty_db_def idle_env_def)
  have h2: "\<not> runs_initialSync (AddAccount pk2 0 1) caught_up_account
      \<and> (\<forall>limit. AddAccount pk2 0 1 \<noteq> Work limit)"
    by (simp add: runs_initialSync_def)
  from block_number_never_decreases
         [where steps = example_steps and s = "new_Synchronizer 1 empty_db"
            and operation = "AddAccount pk2 0 1" and t = caught_up_account and env = idle_env]
       h1 h2
  show ?thesis by (simp add: example_states)
qed

section \<open>The batch of \<open>work\<close>\<close>

lemma attach_each_no_throw:
  assumes "\<forall>b l t. attachLogs_throws env b l t = None"
  shows "attach_each env enc unenc i bs
     = Inr (map (\<lambda>(j, b). b\<lparr>newEncryptedLogs := js_at enc j, newUnencryptedLogs := js_at unenc j\<rparr>)
              (zip [i..<i + length bs] bs))"
proof (induction bs arbitrary: i)
  case Nil
  show ?case by simp
next
  case (Cons b bs)
  have "[i..<i + length (b # bs)] = i # [Suc i..<i + length (b # bs)]"
    by (rule upt_conv_Cons) simp
  then have "[i..<i + length (b # bs)] = i # [Suc i..<Suc i + length bs]"
    by simp
  then show ?case
    by (simp add: attachLogs_def assms Cons.IH)
qed

lemma attached_truncated:
  assumes "length bs \<le> length enc" "length bs \<le> length unenc"
  shows "map (\<lambda>(j, b). b\<lparr>newEncryptedLogs := js_at (take (length bs) enc) j,
                        newUnencryptedLogs := js_at (take (length bs) unenc) j\<rparr>)
              (zip [0..<0 + length bs] bs)
       = map (\<lambda>(b, e, u). b\<lparr>newEncryptedLogs := Some e, newUnencryptedLogs := Some u\<rparr>)
              (zip bs (zip enc unenc))"
  using assms
  by (intro nth_equalityI) (auto simp: js_at_def)

lemma attached_numbers:
  "map number (map (\<lambda>(b, e, u). b\<lparr>newEncryptedLogs := Some e, newUnencryptedLogs := Some u\<rparr>)
              (zip bs (zip enc unenc)))
   = map number (take (min (length enc) (length unenc)) bs)"
  by (intro nth_equalityI) auto

text \<open>
  Claim C5. When the node returns non-empty lists of encrypted and unencrypted logs and
  a non-empty list of blocks shorter than both, when these blocks are numbered
  \<open>from\<close>, \<open>from + 1\<close>, ... in order, and when no call throws, \<open>work\<close>
  returns \<open>true\<close>, attaches to each block the logs at its index, and invokes
  \<open>process\<close> once for each active note processor, in the order of the list, with
  one block context for each returned block, covering the blocks \<open>from\<close> to
  \<open>from + len(blocks) - 1\<close>, and with the encrypted logs cut to the number of
  blocks.
\<close>

theorem work_truncates_logs:
  assumes enc: "node_getLogs env (getSynchedBlockNumber s + 1) limit ENCRYPTED = Inr enc"
    and unenc: "node_getLogs env (getSynchedBlockNumber s + 1) limit UNENCRYPTED = Inr unenc"
    and bs: "node_getBlocks env (getSynchedBlockNumber s + 1) (int (length enc)) = Inr bs"
    and ne: "bs \<noteq> []"
    and shorter: "length bs < length enc" "length bs < length unenc"
    and numbered: "map number bs = map (\<lambda>i. getSynchedBlockNumber s + 1 + int i) [0..<length bs]"
    and no_attach_throw: "\<forall>b l t. attachLogs_throws env b l t = None"
    and no_throw: "\<forall>c. throws env c = None"
  shows "fst (work env limit s) = True
    \<and> (let contexts = map (\<lambda>(b, e, u). \<lparr>block = b\<lparr>newEncryptedLogs := Some e,
                                                  newUnencryptedLogs := Some u\<rparr>\<rparr>)
                          (zip bs (zip enc unenc))
       in process_calls (drop (length (trace s)) (trace (snd (work env limit s))))
            = map (\<lambda>np. (note_processor.publicKey np, contexts, take (length bs) enc))
                (noteProcessors s)
          \<and> length contexts = length bs
          \<and> map (\<lambda>c. number (block c)) contexts
              = map (\<lambda>i. getSynchedBlockNumber s + 1 + int i) [0..<length bs])"
proof -
  define fromBlock where "fromBlock = getSynchedBlockNumber s + 1"
  define attached where "attached
     = map (\<lambda>(b, e, u). b\<lparr>newEncryptedLogs := Some e, newUnencryptedLogs := Some u\<rparr>)
              (zip bs (zip enc unenc))"
  define contexts where "contexts = map (\<lambda>b. \<lparr>block = b\<rparr>) attached"
  define enc' where "enc' = take (length bs) enc"
  define unenc' where "unenc' = take (length bs) unenc"
  have att: "attach_each env enc' unenc' 0 bs = Inr attached"
    unfolding enc'_def unenc'_def attached_def
    using attach_each_no_throw [OF no_attach_throw, of "take (length bs) enc" "take (length bs) unenc" 0 bs]
      attached_truncated [of bs enc unenc] shorter by simp
  have nums: "map number attached = map number bs"
    unfolding attached_def using attached_numbers [of bs enc unenc] shorter by simp
  have "\<forall>b \<in> set attached. number b \<ge> fromBlock"
  proof
    fix b assume "b \<in> set attached"
    then have "number b \<in> set (map number attached)" by (metis image_eqI set_map)
    then have "number b \<in> set (map (\<lambda>i. fromBlock + int i) [0..<length bs])"
      by (simp only: nums numbered fromBlock_def)
    then show "number b \<ge> fromBlock" by auto
  qed
  then have flt: "filter (\<lambda>b. number b \<ge> fromBlock) attached = attached"
    by (simp only: filter_True)
  have len: "length attached = length bs" unfolding attached_def using shorter by simp
  have ne2: "contexts \<noteq> []" unfolding contexts_def using ne len
    by (metis length_0_conv length_map)
  have conds: "enc \<noteq> []" "unenc \<noteq> []" "length bs \<noteq> length enc" "length bs \<noteq> length unenc"
    using ne shorter by auto
  obtain r1 s1 where sbd: "setBlockDataFromBlock env (Some (last contexts)) s = (r1, s1)"
    by (metis prod.exhaust)
  note sb = setBlockDataFromBlock_ok [OF no_throw sbd]
  define s2 where "s2 = log_event (LogForwarding (getTotalLogCount enc') (length (noteProcessors s1))) s1"
  obtain nps' s3 where pe: "process_each env contexts enc' (noteProcessors s2) s2
        = ((None, nps'), s3)"
    and tr3: "trace s3 = trace s2
        @ map (\<lambda>np. Call (Process (note_processor.publicKey np) contexts enc')) (noteProcessors s2)"
    using process_each_ok [OF no_throw] by blast
  have wt2: "work_try env fromBlock limit s = (Inr True, s3\<lparr>noteProcessors := nps'\<rparr>)"
    unfolding work_try_def
    by (simp add: enc [folded fromBlock_def] unenc [folded fromBlock_def]
        bs [folded fromBlock_def] conds ne Let_def
        enc'_def [symmetric] unenc'_def [symmetric] att flt contexts_def [symmetric]
        js_last_def ne2 sbd sb(1) s2_def [symmetric] pe)
  have w: "work env limit s = (True, s3\<lparr>noteProcessors := nps'\<rparr>)"
    by (simp add: work_def wt2 [unfolded fromBlock_def])
  have nps2: "noteProcessors s2 = noteProcessors s" by (simp add: s2_def log_event_def sb(4))
  have tr2: "trace s2 = trace s1 @ [LogForwarding (getTotalLogCount enc') (length (noteProcessors s1))]"
    by (simp add: s2_def log_event_def)
  have d: "drop (length (trace s)) (trace s3)
      = drop (length (trace s)) (trace s1)
        @ [LogForwarding (getTotalLogCount enc') (length (noteProcessors s1))]
        @ map (\<lambda>np. Call (Process (note_processor.publicKey np) contexts enc')) (noteProcessors s)"
    using sb(3) by (simp add: tr3 tr2 nps2)
  have pc: "process_calls (drop (length (trace s)) (trace (s3\<lparr>noteProcessors := nps'\<rparr>)))
      = map (\<lambda>np. (note_processor.publicKey np, contexts, enc')) (noteProcessors s)"
    by (simp add: d process_calls_append sb(2) process_calls_map)
  have nm: "map (\<lambda>c. number (block c)) contexts = map (\<lambda>i. fromBlock + int i) [0..<length bs]"
    using nums numbered by (simp add: comp_def contexts_def fromBlock_def)
  have cx: "contexts = map (\<lambda>(b, e, u). \<lparr>block = b\<lparr>newEncryptedLogs := Some e,
                                                  newUnencryptedLogs := Some u\<rparr>\<rparr>)
                          (zip bs (zip enc unenc))"
    by (simp add: contexts_def attached_def comp_def case_prod_unfold)
  have lc: "length contexts = length bs" by (simp add: contexts_def len)
  show ?thesis
    unfolding Let_def cx [symmetric]
    using w pc nm lc by (simp add: enc'_def fromBlock_def)
qed

text \<open>
  The theorem at work: five log bundles of each type and the blocks 6, 7 and 8; the
  only active note processor receives the three blocks and the first three bundles.
\<close>

theorem work_truncates_logs_witness:
  "node_getLogs five_logs_env (getSynchedBlockNumber caught_up_account + 1) 1 ENCRYPTED
      = Inr five_logs
   \<and> node_getBlocks five_logs_env (getSynchedBlockNumber caught_up_account + 1)
        (int (length five_logs))
      = Inr [example_block 6, example_block 7, example_block 8]
   \<and> fst (work five_logs_env 1 caught_up_account) = True
   \<and> map (\<lambda>(pk, contexts, logs). (pk, map (\<lambda>c. number (block c)) contexts, logs))
        (process_calls (drop (length (trace caught_up_account))
           (trace (snd (work five_logs_env 1 caught_up_account)))))
      = [(pk1, [6, 7, 8], take 3 five_logs)]"
proof -
  let ?bs = "[example_block 6, example_block 7, example_block 8]"
  have g: "getSynchedBlockNumber caught_up_account + 1 = 6"
    by (simp add: caught_up_account_eq getSynchedBlockNumber_def)
  have enc: "node_getLogs five_logs_env (getSynchedBlockNumber caught_up_account + 1) 1 ENCRYPTED
      = Inr five_logs"
    and unenc: "node_getLogs five_logs_env (getSynchedBlockNumber caught_up_account + 1) 1 UNENCRYPTED
      = Inr five_logs"
    and bs: "node_getBlocks five_logs_env (getSynchedBlockNumber caught_up_account + 1)
        (int (length five_logs)) = Inr ?bs"
    by (simp_all add: g five_logs_env_def)
  have ne: "?bs \<noteq> []" by simp
  have shorter: "length ?bs < length five_logs" by (simp add: five_logs_def)
  have numbered: "map number ?bs
      = map (\<lambda>i. getSynchedBlockNumber caught_up_account + 1 + int i) [0..<length ?bs]"
    by (simp add: g example_block_def upt_conv_Cons)
  have nat: "\<forall>b l t. attachLogs_throws five_logs_env b l t = None"
    and nt: "\<forall>c. throws five_logs_env c = None"
    by (simp_all add: five_logs_env_def idle_env_def)
  have np: "noteProcessors caught_up_account
      = [\<lparr>note_processor.publicKey = pk1, keyStore = 0, syncedToBlock = 5\<rparr>]"
    by (simp add: caught_up_account_eq)
  note w = work_truncates_logs [OF enc unenc bs ne shorter shorter numbered nat nt,
      unfolded Let_def]
  from w have 1: "fst (work five_logs_env 1 caught_up_account) = True" by blast
  from w have 2: "process_calls (drop (length (trace caught_up_account))
           (trace (snd (work five_logs_env 1 caught_up_account))))
       = map (\<lambda>np. (note_processor.publicKey np,
                    map (\<lambda>(b, e, u). \<lparr>block = b\<lparr>newEncryptedLogs := Some e,
                                                  newUnencryptedLogs := Some u\<rparr>\<rparr>)
                          (zip ?bs (zip five_logs five_logs)),
                    take (length ?bs) five_logs))
                (noteProcessors caught_up_account)"
    by blast
  show ?thesis
    unfolding 2 using enc bs 1
    by (simp add: np five_logs_def example_block_def)
qed

text \<open>
  Claim C5 as worded fails in two ways. First, when the node answers a request from
  block 6 on with the blocks 5 and 6 (and three log bundles of each type), block 5 is
  dropped: \<open>process\<close> receives one block context, not two, and two log bundles.
  Second, when \<open>db.setBlockData\<close> throws, \<open>work\<close> ends before the loop and
  \<open>process\<close> is not invoked at all, though there is an active note processor.
\<close>

theorem work_truncates_logs_counterexample:
  "node_getLogs stale_block_env (getSynchedBlockNumber caught_up_account + 1) 1 ENCRYPTED
      = Inr (take 3 five_logs)
   \<and> node_getLogs stale_block_env (getSynchedBlockNumber caught_up_account + 1) 1 UNENCRYPTED
      = Inr (take 3 five_logs)
   \<and> node_getBlocks stale_block_env (getSynchedBlockNumber caught_up_account + 1) 3
      = Inr [example_block 5, example_block 6]
   \<and> map (\<lambda>(pk, contexts, logs). (pk, map (\<lambda>c. number (block c)) contexts, logs))
        (process_calls (drop (length (trace caught_up_account))
           (trace (snd (work stale_block_env 1 caught_up_account)))))
      = [(pk1, [6], take 2 five_logs)]
   \<and> node_getLogs setBlockData_fails_env (getSynchedBlockNumber caught_up_account + 1) 1 ENCRYPTED
      = Inr five_logs
   \<and> node_getLogs setBlockData_fails_env (getSynchedBlockNumber caught_up_account + 1) 1 UNENCRYPTED
      = Inr five_logs
   \<and> node_getBlocks setBlockData_fails_env (getSynchedBlockNumber caught_up_account + 1) 5
      = Inr [example_block 6, example_block 7, example_block 8]
   \<and> noteProcessors caught_up_account \<noteq> []
   \<and> process_calls (drop (length (trace caught_up_account))
           (trace (snd (work setBlockData_fails_env 1 caught_up_account)))) = []"
  by (simp add: caught_up_account_eq work_defs stale_block_env_def setBlockData_fails_env_def
      five_logs_env_def five_logs_def idle_env_def)

section \<open>The block header stored by \<open>work\<close>\<close>

text \<open>
  \<open>attachLogs\<close> touches the two log fields of a block only, so the last block of the
  batch has the number, the roots and the global variables the node gave it. After
  \<open>setBlockDataFromBlock\<close>, \<open>work\<close> calls \<open>db.setBlockData\<close> no more and
  leaves the block number and the header of the database alone.
\<close>

lemma setBlockData_calls_append:
  "setBlockData_calls (xs @ ys) = setBlockData_calls xs @ setBlockData_calls ys"
  by (induction xs rule: setBlockData_calls.induct) simp_all

lemma setBlockData_calls_process:
  "setBlockData_calls (map (\<lambda>np. Call (Process (f np) c l)) nps) = []"
  by (induction nps) simp_all

lemma attach_each_logs_only:
  assumes "attach_each env enc unenc i bs = Inr attached"
  shows "map (\<lambda>b. b\<lparr>newEncryptedLogs := None, newUnencryptedLogs := None\<rparr>) attached
       = map (\<lambda>b. b\<lparr>newEncryptedLogs := None, newUnencryptedLogs := None\<rparr>) bs"
  using assms
proof (induction bs arbitrary: i attached)
  case Nil
  then show ?case by simp
next
  case (Cons b bs)
  from Cons.prems obtain b1 b2 rest where
    a1: "attachLogs env b (js_at enc i) ENCRYPTED = Inr b1"
    and a2: "attachLogs env b1 (js_at unenc i) UNENCRYPTED = Inr b2"
    and r: "attach_each env enc unenc (Suc i) bs = Inr rest"
    and eq: "attached = b2 # rest"
    by (auto split: sum.splits)
  from a1 have "b1 = b\<lparr>newEncryptedLogs := js_at enc i\<rparr>"
    by (simp add: attachLogs_def split: option.splits)
  moreover from a2 have "b2 = b1\<lparr>newUnencryptedLogs := js_at unenc i\<rparr>"
    by (simp add: attachLogs_def split: option.splits)
  ultimately have "b2\<lparr>newEncryptedLogs := None, newUnencryptedLogs := None\<rparr>
      = b\<lparr>newEncryptedLogs := None, newUnencryptedLogs := None\<rparr>" by simp
  with Cons.IH [OF r] eq show ?case by simp
qed

lemma last_matching:
  fixes strip :: "l2_block \<Rightarrow> l2_block"
  assumes m: "map strip attached = map strip bs"
    and p: "\<And>b. P (strip b) = P b"
    and ne: "filter P bs \<noteq> []"
  shows "filter P attached \<noteq> []"
    and "strip (last (filter P attached)) = strip (last (filter P bs))"
proof -
  have c: "\<And>xs. map strip (filter P xs) = filter P (map strip xs)"
    by (simp add: filter_map o_def p)
  from m have e: "map strip (filter P attached) = map strip (filter P bs)"
    by (simp add: c)
  with ne show n: "filter P attached \<noteq> []" by (metis map_is_Nil_conv)
  from n have "strip (last (filter P attached)) = last (map strip (filter P attached))"
    by (simp add: last_map)
  also from e have "\<dots> = last (map strip (filter P bs))" by simp
  also from ne have "\<dots> = strip (last (filter P bs))" by (simp add: last_map)
  finally show "strip (last (filter P attached)) = strip (last (filter P bs))" .
qed

lemma work_after_setBlockData:
  assumes f: "fetched env (getSynchedBlockNumber s + 1) limit enc unenc bs"
    and a: "attach_each env (take (length bs) enc) (take (length bs) unenc) 0 bs = Inr attached"
    and sbd: "setBlockDataFromBlock env
        (js_last (map (\<lambda>b. \<lparr>block = b\<rparr>)
           (filter (\<lambda>b. number b \<ge> getSynchedBlockNumber s + 1) attached))) s = (q, s1)"
  shows "\<exists>tr. trace (snd (work env limit s)) = trace s1 @ tr
           \<and> setBlockData_calls tr = []
           \<and> blockNumber (db (snd (work env limit s))) = blockNumber (db s1)
           \<and> blockHeader (db (snd (work env limit s))) = blockHeader (db s1)"
proof -
  define contexts where "contexts = map (\<lambda>b. \<lparr>block = b\<rparr>)
           (filter (\<lambda>b. number b \<ge> getSynchedBlockNumber s + 1) attached)"
  note wt = work_try_fetched [OF f a, folded contexts_def]
  note sbd' = sbd [folded contexts_def]
  show ?thesis
  proof (cases q)
    case (Inl e)
    with wt sbd' have "work env limit s
        = (False, log_event (LogError ''Error in synchronizer work'' e) s1)"
      by (simp add: work_def)
    then show ?thesis
      by (intro exI [of _ "[LogError ''Error in synchronizer work'' e]"])
         (simp add: log_event_def)
  next
    case (Inr u)
    define s2 where "s2 = log_event (LogForwarding (getTotalLogCount (take (length bs) enc))
        (length (noteProcessors s1))) s1"
    obtain r nps s3 where pe: "process_each env contexts (take (length bs) enc)
        (noteProcessors s1) s2 = ((r, nps), s3)" by (metis prod.exhaust)
    from process_each_frame [OF pe] have fr: "blockNumber (db s3) = blockNumber (db s1)"
      "blockHeader (db s3) = blockHeader (db s1)" by (simp_all add: s2_def log_event_def)
    from process_each_trace [OF pe] obtain k where
      tr: "trace s3 = trace s1 @ LogForwarding (getTotalLogCount (take (length bs) enc))
              (length (noteProcessors s1))
            # map (\<lambda>np. Call (Process (note_processor.publicKey np) contexts
                    (take (length bs) enc))) (take k (noteProcessors s1))"
      by (auto simp: s2_def log_event_def)
    show ?thesis
    proof (cases r)
      case None
      with wt sbd' Inr pe have "work env limit s = (True, s3\<lparr>noteProcessors := nps\<rparr>)"
        by (simp add: work_def s2_def)
      with fr tr show ?thesis
        by (intro exI [of _ "LogForwarding (getTotalLogCount (take (length bs) enc))
              (length (noteProcessors s1))
            # map (\<lambda>np. Call (Process (note_processor.publicKey np) contexts
                    (take (length bs) enc))) (take k (noteProcessors s1))"])
           (simp add: setBlockData_calls_process)
    next
      case (Some e)
      with wt sbd' Inr pe have "work env limit s
          = (False, log_event (LogError ''Error in synchronizer work'' e)
                      (s3\<lparr>noteProcessors := nps\<rparr>))"
        by (simp add: work_def s2_def)
      with fr tr show ?thesis
        by (intro exI [of _ "(LogForwarding (getTotalLogCount (take (length bs) enc))
              (length (noteProcessors s1))
            # map (\<lambda>np. Call (Process (note_processor.publicKey np) contexts
                    (take (length bs) enc))) (take k (noteProcessors s1)))
            @ [LogError ''Error in synchronizer work'' e]"])
           (simp add: setBlockData_calls_process setBlockData_calls_append log_event_def)
    qed
  qed
qed

text \<open>
  Claim C6. Let the node answer \<open>work\<close> with non-empty lists of logs and a list of
  blocks of which one at least is numbered \<open>from\<close> or higher, and let
  \<open>attachLogs\<close> not throw; let \<open>b\<close> be the last of these blocks, and the header
  the six tree roots of \<open>b\<close> (with zero for the root of the private kernel tree) and
  the hash of its global variables. If the number of \<open>b\<close> is at least
  \<open>initialSyncBlockNumber\<close>, the first event of the call is
  \<open>db.setBlockData\<close> with this number and header, it is the only such call, and
  when \<open>work\<close> returns the database holds this number and header, whatever the note
  processors did, unless the call threw: then block number and header are as they were.
  If the number of \<open>b\<close> is lower, \<open>work\<close> makes no \<open>db.setBlockData\<close> call
  and block number and header are as they were.
\<close>

theorem work_stores_last_block_header:
  "(let fromBlock = getSynchedBlockNumber s + 1;
        matching = filter (\<lambda>b. number b \<ge> fromBlock) bs;
        b = last matching;
        header = \<lparr>noteHashTreeRoot = endNoteHashTreeSnapshot_root b,
                  nullifierTreeRoot = endNullifierTreeSnapshot_root b,
                  contractTreeRoot = endContractTreeSnapshot_root b,
                  l1ToL2MessagesTreeRoot = endL1ToL2MessageTreeSnapshot_root b,
                  archiveRoot = endArchiveSnapshot_root b,
                  privateKernelVkTreeRoot = 0,
                  publicDataTreeRoot = endPublicDataTreeSnapshot_root b,
                  globalVariablesHash = computeGlobalsHash env (globalVariables b)\<rparr>;
        s' = snd (work env limit s);
        new_events = drop (length (trace s)) (trace s')
    in fetched env fromBlock limit enc unenc bs
       \<and> attach_each env (take (length bs) enc) (take (length bs) unenc) 0 bs = Inr attached
       \<and> matching \<noteq> []
       \<longrightarrow> (number b \<ge> initialSyncBlockNumber s \<longrightarrow>
              take 1 new_events = [Call (SetBlockData (number b) header)]
              \<and> setBlockData_calls new_events = [(number b, header)]
              \<and> (throws env (SetBlockData (number b) header) = None \<longrightarrow>
                    blockNumber (db s') = Some (number b) \<and> blockHeader (db s') = Some header)
              \<and> (throws env (SetBlockData (number b) header) \<noteq> None \<longrightarrow>
                    blockNumber (db s') = blockNumber (db s)
                    \<and> blockHeader (db s') = blockHeader (db s)))
         \<and> (number b < initialSyncBlockNumber s \<longrightarrow>
              setBlockData_calls new_events = []
              \<and> blockNumber (db s') = blockNumber (db s)
              \<and> blockHeader (db s') = blockHeader (db s)))"
proof -
  define fromBlock where "fromBlock = getSynchedBlockNumber s + 1"
  define strip :: "l2_block \<Rightarrow> l2_block"
    where "strip = (\<lambda>b. b\<lparr>newEncryptedLogs := None, newUnencryptedLogs := None\<rparr>)"
  define b where "b = last (filter (\<lambda>b. number b \<ge> fromBlock) bs)"
  define b' where "b' = last (filter (\<lambda>b. number b \<ge> fromBlock) attached)"
  let ?call = "SetBlockData (number b) (header_of env b)"
  define s' where "s' = snd (work env limit s)"
  have goal: "(number b \<ge> initialSyncBlockNumber s \<longrightarrow>
              take 1 (drop (length (trace s)) (trace s')) = [Call ?call]
              \<and> setBlockData_calls (drop (length (trace s)) (trace s'))
                  = [(number b, header_of env b)]
              \<and> (throws env ?call = None \<longrightarrow>
                    blockNumber (db s') = Some (number b)
                    \<and> blockHeader (db s') = Some (header_of env b))
              \<and> (throws env ?call \<noteq> None \<longrightarrow>
                    blockNumber (db s') = blockNumber (db s)
                    \<and> blockHeader (db s') = blockHeader (db s)))
         \<and> (number b < initialSyncBlockNumber s \<longrightarrow>
              setBlockData_calls (drop (length (trace s)) (trace s')) = []
              \<and> blockNumber (db s') = blockNumber (db s)
              \<and> blockHeader (db s') = blockHeader (db s))"
    if f: "fetched env fromBlock limit enc unenc bs"
      and a: "attach_each env (take (length bs) enc) (take (length bs) unenc) 0 bs = Inr attached"
      and ne: "filter (\<lambda>b. number b \<ge> fromBlock) bs \<noteq> []"
  proof -
    have m: "map strip attached = map strip bs"
      unfolding strip_def by (rule attach_each_logs_only [OF a])
    have p: "\<And>b. (fromBlock \<le> number (strip b)) = (fromBlock \<le> number b)"
      by (simp add: strip_def)
    from last_matching [where P = "\<lambda>b. number b \<ge> fromBlock", OF m p ne]
    have ne': "filter (\<lambda>b. number b \<ge> fromBlock) attached \<noteq> []"
      and st: "strip b' = strip b" by (simp_all add: b_def b'_def)
    have "number (strip b') = number b'" "header_of env (strip b') = header_of env b'"
      "number (strip b) = number b" "header_of env (strip b) = header_of env b"
      by (simp_all add: strip_def header_of_def)
    with st have nb: "number b' = number b" and hb: "header_of env b' = header_of env b"
      by simp_all
    from ne' have jl: "js_last (map (\<lambda>b. \<lparr>block = b\<rparr>)
        (filter (\<lambda>b. number b \<ge> fromBlock) attached)) = Some \<lparr>block = b'\<rparr>"
      by (simp add: js_last_def last_map b'_def)
    obtain q s1 where sbd: "setBlockDataFromBlock env (Some \<lparr>block = b'\<rparr>) s = (q, s1)"
      by (metis prod.exhaust)
    from work_after_setBlockData [OF f [unfolded fromBlock_def] a,
        folded fromBlock_def, unfolded jl, OF sbd]
    obtain tr where tr: "trace s' = trace s1 @ tr" "setBlockData_calls tr = []"
      "blockNumber (db s') = blockNumber (db s1)" "blockHeader (db s') = blockHeader (db s1)"
      unfolding s'_def by blast
    show ?thesis
    proof (intro conjI impI)
      assume "number b < initialSyncBlockNumber s"
      with nb have "number (block \<lparr>block = b'\<rparr>) < initialSyncBlockNumber s" by simp
      from setBlockDataFromBlock_closed [OF this, of env] sbd have "s1 = s" by simp
      with tr show "setBlockData_calls (drop (length (trace s)) (trace s')) = []"
        "blockNumber (db s') = blockNumber (db s)" "blockHeader (db s') = blockHeader (db s)"
        by simp_all
    next
      assume "number b \<ge> initialSyncBlockNumber s"
      with nb have "number (block \<lparr>block = b'\<rparr>) \<ge> initialSyncBlockNumber s" by simp
      from setBlockDataFromBlock_open [OF this, of env,
          unfolded l2_block_context.select_convs nb hb sbd]
      have op: "(q, s1) = (case throws env ?call of
           Some e \<Rightarrow> (Inl e, record_call ?call s)
         | None \<Rightarrow>
            (Inr (), (record_call ?call s)
               \<lparr>db := (db s)\<lparr>blockNumber := Some (number b),
                               blockHeader := Some (header_of env b)\<rparr>\<rparr>))"
        .
      from op have t1: "trace s1 = trace s @ [Call ?call]"
        by (auto simp: record_call_def split: option.splits)
      with tr show "take 1 (drop (length (trace s)) (trace s')) = [Call ?call]"
        by simp
      from t1 tr show "setBlockData_calls (drop (length (trace s)) (trace s'))
          = [(number b, header_of env b)]"
        by (simp add: setBlockData_calls_append)
      {
        assume "throws env ?call = None"
        with op tr show "blockNumber (db s') = Some (number b)"
          "blockHeader (db s') = Some (header_of env b)"
          by (auto simp: record_call_def)
      }
      {
        assume "throws env ?call \<noteq> None"
        with op tr show "blockNumber (db s') = blockNumber (db s)"
          "blockHeader (db s') = blockHeader (db s)"
          by (auto simp: record_call_def)
      }
    qed
  qed
  from goal show ?thesis
    unfolding Let_def fromBlock_def b_def s'_def header_of_def by blast
qed

text \<open>
  The theorem at work. At cursor 5 the node answers with blocks 6, 7 and 8: the header
  of block 8 is stored, unless \<open>db.setBlockData\<close> throws. With
  \<open>initialSyncBlockNumber\<close> at 9 and the database at block 5, block 6 is fetched and
  not stored.
\<close>

theorem work_stores_last_block_header_witness:
  "take 1 (drop (length (trace caught_up_account))
             (trace (snd (work five_logs_env 1 caught_up_account))))
     = [Call (SetBlockData 8 example_header)]
   \<and> setBlockData_calls (drop (length (trace caught_up_account))
                            (trace (snd (work five_logs_env 1 caught_up_account))))
     = [(8, example_header)]
   \<and> blockNumber (db (snd (work five_logs_env 1 caught_up_account))) = Some 8
   \<and> blockHeader (db (snd (work five_logs_env 1 caught_up_account))) = Some example_header
   \<and> setBlockData_calls (drop (length (trace caught_up_account))
                            (trace (snd (work setBlockData_fails_env 1 caught_up_account))))
     = [(8, example_header)]
   \<and> blockNumber (db (snd (work setBlockData_fails_env 1 caught_up_account))) = Some 5
   \<and> setBlockData_calls (drop (length (trace late_start_account))
                            (trace (snd (work one_block_env 1 late_start_account))))
     = []
   \<and> blockNumber (db (snd (work one_block_env 1 late_start_account))) = Some 5
   \<and> blockHeader (db (snd (work one_block_env 1 late_start_account)))
     = blockHeader (db late_start_account)"
proof -
  note envs = five_logs_env_def setBlockData_fails_env_def one_block_env_def idle_env_def
  note defs = fetched_def attachLogs_def js_at_def getSynchedBlockNumber_def
    caught_up_account_eq late_start_account_eq example_block_def attached_block_def
    five_logs_def example_header_def
  have a: "take 1 (drop (length (trace caught_up_account))
             (trace (snd (work five_logs_env 1 caught_up_account))))
     = [Call (SetBlockData 8 example_header)]
   \<and> setBlockData_calls (drop (length (trace caught_up_account))
                            (trace (snd (work five_logs_env 1 caught_up_account))))
     = [(8, example_header)]
   \<and> blockNumber (db (snd (work five_logs_env 1 caught_up_account))) = Some 8
   \<and> blockHeader (db (snd (work five_logs_env 1 caught_up_account))) = Some example_header"
    using work_stores_last_block_header [where env = five_logs_env and s = caught_up_account
        and limit = 1 and enc = five_logs and unenc = five_logs
        and bs = "[example_block 6, example_block 7, example_block 8]"
        and attached = "[attached_block 6 0, attached_block 7 1, attached_block 8 2]",
        unfolded Let_def]
    by (simp add: envs defs)
  have b: "setBlockData_calls (drop (length (trace caught_up_account))
                            (trace (snd (work setBlockData_fails_env 1 caught_up_account))))
     = [(8, example_header)]
   \<and> blockNumber (db (snd (work setBlockData_fails_env 1 caught_up_account))) = Some 5"
    using work_stores_last_block_header [where env = setBlockData_fails_env
        and s = caught_up_account
        and limit = 1 and enc = five_logs and unenc = five_logs
        and bs = "[example_block 6, example_block 7, example_block 8]"
        and attached = "[attached_block 6 0, attached_block 7 1, attached_block 8 2]",
        unfolded Let_def]
    by (simp add: envs defs)
  have c: "setBlockData_calls (drop (length (trace late_start_account))
                            (trace (snd (work one_block_env 1 late_start_account))))
     = []
   \<and> blockNumber (db (snd (work one_block_env 1 late_start_account))) = Some 5
   \<and> blockHeader (db (snd (work one_block_env 1 late_start_account)))
     = blockHeader (db late_start_account)"
    using work_stores_last_block_header [where env = one_block_env and s = late_start_account
        and limit = 1 and enc = "[[]]" and unenc = "[[]]"
        and bs = "[example_block 6]"
        and attached = "[(example_block 6)\<lparr>newEncryptedLogs := Some [],
                                            newUnencryptedLogs := Some []\<rparr>]",
        unfolded Let_def]
    by (simp add: envs defs)
  note a1 = a [THEN conjunct1] and a2 = a [THEN conjunct2, THEN conjunct1]
    and a3 = a [THEN conjunct2, THEN conjunct2, THEN conjunct1]
    and a4 = a [THEN conjunct2, THEN conjunct2, THEN conjunct2]
    and b1 = b [THEN conjunct1] and b2 = b [THEN conjunct2]
    and c1 = c [THEN conjunct1] and c2 = c [THEN conjunct2, THEN conjunct1]
    and c3 = c [THEN conjunct2, THEN conjunct2]
  show ?thesis by (intro conjI a1 a2 a3 a4 b1 b2 c1 c2 c3)
qed

section \<open>Adding accounts\<close>

lemma find_None_set: "find P xs = None \<longleftrightarrow> (\<forall>x\<in>set xs. \<not> P x)"
  by (induction xs) auto

lemma addAccount_present:
  "\<exists>p \<in> set (noteProcessors s) \<union> set (noteProcessorsToCatchUp s). note_processor.publicKey p = pk
   \<Longrightarrow> addAccount pk ks b s = s"
  by (auto simp: addAccount_def Let_def find_None_set split: option.splits)

lemma addAccount_absent:
  "\<forall>p \<in> set (noteProcessors s) \<union> set (noteProcessorsToCatchUp s). note_processor.publicKey p \<noteq> pk
   \<Longrightarrow> addAccount pk ks b s
       = s\<lparr>noteProcessorsToCatchUp := noteProcessorsToCatchUp s @ [new_NoteProcessor pk ks b]\<rparr>"
  by (auto simp: addAccount_def Let_def find_None_set split: option.splits)

text \<open>
  Claim C8. \<open>addAccount\<close> is a synchronous method, a function of the state here.
  When a note processor with an equal public key is in the active list or in the
  catch-up list, it leaves the state unchanged; otherwise it appends exactly one new
  note processor to the catch-up list and changes nothing else. Hence a second call
  with the same public key, whatever its key store and starting block, has no further
  effect.
\<close>

theorem addAccount_idempotent:
  "((\<exists>p \<in> set (noteProcessors s) \<union> set (noteProcessorsToCatchUp s).
        note_processor.publicKey p = pk)
      \<longrightarrow> addAccount pk ks startingBlock s = s)
   \<and> ((\<forall>p \<in> set (noteProcessors s) \<union> set (noteProcessorsToCatchUp s).
        note_processor.publicKey p \<noteq> pk)
      \<longrightarrow> addAccount pk ks startingBlock s
          = s\<lparr>noteProcessorsToCatchUp :=
                noteProcessorsToCatchUp s @ [new_NoteProcessor pk ks startingBlock]\<rparr>)
   \<and> addAccount pk ks' startingBlock' (addAccount pk ks startingBlock s)
       = addAccount pk ks startingBlock s"
proof (intro conjI impI)
  assume "\<exists>p \<in> set (noteProcessors s) \<union> set (noteProcessorsToCatchUp s).
        note_processor.publicKey p = pk"
  then show "addAccount pk ks startingBlock s = s" by (rule addAccount_present)
next
  assume "\<forall>p \<in> set (noteProcessors s) \<union> set (noteProcessorsToCatchUp s).
        note_processor.publicKey p \<noteq> pk"
  then show "addAccount pk ks startingBlock s
          = s\<lparr>noteProcessorsToCatchUp :=
                noteProcessorsToCatchUp s @ [new_NoteProcessor pk ks startingBlock]\<rparr>"
    by (rule addAccount_absent)
next
  show "addAccount pk ks' startingBlock' (addAccount pk ks startingBlock s)
       = addAccount pk ks startingBlock s"
  proof (cases "\<exists>p \<in> set (noteProcessors s) \<union> set (noteProcessorsToCatchUp s).
        note_processor.publicKey p = pk")
    case True
    then show ?thesis by (simp add: addAccount_present)
  next
    case False
    then have "addAccount pk ks startingBlock s
        = s\<lparr>noteProcessorsToCatchUp :=
                noteProcessorsToCatchUp s @ [new_NoteProcessor pk ks startingBlock]\<rparr>"
      by (simp add: addAccount_absent)
    then show ?thesis
      by (simp add: addAccount_present new_NoteProcessor_def)
  qed
qed

text \<open>
  The theorem at work on a synchronizer with one account: adding it again changes
  nothing, adding another account appends its note processor to the catch-up list.
\<close>

theorem addAccount_idempotent_witness:
  "(\<exists>p \<in> set (noteProcessors one_account) \<union> set (noteProcessorsToCatchUp one_account).
        note_processor.publicKey p = pk1)
   \<and> addAccount pk1 9 7 one_account = one_account
   \<and> pk2 \<notin> note_processor.publicKey
               ` (set (noteProcessors one_account) \<union> set (noteProcessorsToCatchUp one_account))
   \<and> noteProcessorsToCatchUp (addAccount pk2 0 3 one_account)
       = [new_NoteProcessor pk1 0 1, new_NoteProcessor pk2 0 3]
   \<and> noteProcessors (addAccount pk2 0 3 one_account) = []"
proof -
  have s: "noteProcessors one_account = []"
    "noteProcessorsToCatchUp one_account = [new_NoteProcessor pk1 0 1]"
    by (simp_all add: one_account_def addAccount_def new_Synchronizer_def)
  have a: "\<exists>p \<in> set (noteProcessors one_account) \<union> set (noteProcessorsToCatchUp one_account).
        note_processor.publicKey p = pk1"
    by (simp add: s new_NoteProcessor_def)
  have b: "\<forall>p \<in> set (noteProcessors one_account) \<union> set (noteProcessorsToCatchUp one_account).
        note_processor.publicKey p \<noteq> pk2"
    by (simp add: s new_NoteProcessor_def pk1_def pk2_def)
  from addAccount_idempotent [of one_account pk1 9 7 9 7] a
  have 1: "addAccount pk1 9 7 one_account = one_account" by blast
  from addAccount_idempotent [of one_account pk2 0 3 0 3] b
  have 2: "addAccount pk2 0 3 one_account
     = one_account\<lparr>noteProcessorsToCatchUp :=
          noteProcessorsToCatchUp one_account @ [new_NoteProcessor pk2 0 3]\<rparr>" by blast
  have 3: "pk2 \<notin> note_processor.publicKey
               ` (set (noteProcessors one_account) \<union> set (noteProcessorsToCatchUp one_account))"
    by (simp add: s new_NoteProcessor_def pk1_def pk2_def)
  have 4: "noteProcessorsToCatchUp (addAccount pk2 0 3 one_account)
       = [new_NoteProcessor pk1 0 1, new_NoteProcessor pk2 0 3]"
    "noteProcessors (addAccount pk2 0 3 one_account) = []"
    by (simp_all add: 2 s)
  from a 1 3 4 show ?thesis by (intro conjI)
qed

section \<open>The nullifier scan of deferred-note reprocessing\<close>

text \<open>
  Claim C9. In the final scan of \<open>reprocessDeferredNotesForContract\<close> a nullifier
  that the node finds at leaf index 0 is not added to \<open>relevantNullifiers\<close>, since
  the index 0 is falsy; so no \<open>removeNullifiedNotes\<close> call made by the operation
  lists it, although it is in the nullifier tree.
\<close>

theorem leaf_index_zero_not_removed:
  "(find_relevant env nullifiers = Inr relevantNullifiers
      \<and> node_findLeafIndex env nullifier = Inr (Some 0)
      \<longrightarrow> nullifier \<notin> set relevantNullifiers)
   \<and> ((removed, pk) \<in> set (removeNullifiedNotes_calls
            (drop (length (trace s))
               (trace (snd (reprocessDeferredNotesForContract env address s)))))
      \<and> node_findLeafIndex env nullifier = Inr (Some 0)
      \<longrightarrow> nullifier \<notin> set removed)"
proof (intro conjI impI)
  assume "find_relevant env nullifiers = Inr relevantNullifiers
      \<and> node_findLeafIndex env nullifier = Inr (Some 0)"
  then show "nullifier \<notin> set relevantNullifiers"
    using find_relevant_filter [of env nullifiers relevantNullifiers]
    by (auto simp: nullifier_found_def truthy_def)
next
  assume a: "(removed, pk) \<in> set (removeNullifiedNotes_calls
            (drop (length (trace s))
               (trace (snd (reprocessDeferredNotesForContract env address s)))))
      \<and> node_findLeafIndex env nullifier = Inr (Some 0)"
  obtain r s' where rp: "reprocessDeferredNotesForContract env address s = (r, s')"
    by (metis prod.exhaust)
  from ofr_reprocess [OF rp] obtain tr where
    tr: "trace s' = trace s @ tr" "only_found_removed env tr" by blast
  from a rp tr(1) have "(removed, pk) \<in> set (removeNullifiedNotes_calls tr)" by simp
  with tr(2) have "\<forall>n \<in> set removed. nullifier_found env n"
    by (auto simp: only_found_removed_def)
  moreover from a have "\<not> nullifier_found env nullifier"
    by (simp add: nullifier_found_def truthy_def)
  ultimately show "nullifier \<notin> set removed" by blast
qed

text \<open>
  The theorem at work: of two decoded notes, one with its nullifier at leaf 0 and one
  with its nullifier at leaf 7, only the second nullifier is handed to
  \<open>removeNullifiedNotes\<close>.
\<close>

theorem leaf_index_zero_not_removed_witness:
  "find_relevant nullified_env [100, 200] = Inr [200]
   \<and> node_findLeafIndex nullified_env 100 = Inr (Some 0)
   \<and> ([200], pk1) \<in> set (removeNullifiedNotes_calls
        (drop (length (trace deferred_account))
           (trace (snd (reprocessDeferredNotesForContract nullified_env 3 deferred_account)))))
   \<and> (100 :: fr) \<notin> set [200]"
proof -
  have a: "find_relevant nullified_env [100, 200] = Inr [200]"
    by (simp add: nullified_env_def idle_env_def truthy_def)
  have b: "node_findLeafIndex nullified_env 100 = Inr (Some 0)"
    by (simp add: nullified_env_def idle_env_def)
  have c: "([200], pk1) \<in> set (removeNullifiedNotes_calls
        (drop (length (trace deferred_account))
           (trace (snd (reprocessDeferredNotesForContract nullified_env 3 deferred_account)))))"
    by (simp add: reprocess_example)
  from leaf_index_zero_not_removed
         [of nullified_env "[100, 200]" "[200]" 100 "[200]" pk1 deferred_account 3]
       a b c
  show ?thesis by blast
qed

section \<open>The sync status\<close>

lemma addAccount_distinct:
  assumes "distinct (map note_processor.publicKey (noteProcessors s @ noteProcessorsToCatchUp s))"
  shows "distinct (map note_processor.publicKey
           (noteProcessors (addAccount pk ks b s) @ noteProcessorsToCatchUp (addAccount pk ks b s)))"
proof (cases "\<exists>p \<in> set (noteProcessors s) \<union> set (noteProcessorsToCatchUp s).
        note_processor.publicKey p = pk")
  case True
  with assms show ?thesis by (simp add: addAccount_present)
next
  case False
  then have "addAccount pk ks b s
        = s\<lparr>noteProcessorsToCatchUp := noteProcessorsToCatchUp s @ [new_NoteProcessor pk ks b]\<rparr>"
    by (simp add: addAccount_absent)
  with assms False show ?thesis by (auto simp: new_NoteProcessor_def)
qed

lemma exec_distinct:
  assumes "distinct (map note_processor.publicKey (noteProcessors s @ noteProcessorsToCatchUp s))"
  shows "distinct (map note_processor.publicKey
           (noteProcessors (exec env operation s) @ noteProcessorsToCatchUp (exec env operation s)))"
proof (cases operation)
  case Start
  with assms start_lists [of env s] show ?thesis by simp
next
  case Stop
  with assms show ?thesis by (simp add: stop_def log_event_def)
next
  case InitialSync
  with assms initialSync_lists [of env s] show ?thesis by simp
next
  case (Work l)
  with assms work_lists [of env l s] show ?thesis by simp
next
  case (WorkNoteProcessorCatchUp l)
  with workNoteProcessorCatchUp_distinct [OF assms] show ?thesis by simp
next
  case (AddAccount pk ks b)
  with addAccount_distinct [OF assms] show ?thesis by simp
next
  case (ReprocessDeferredNotesForContract a)
  obtain r s' where "reprocessDeferredNotesForContract env a s = (r, s')" by (metis prod.exhaust)
  with ubn_reprocess [OF this] ReprocessDeferredNotesForContract assms show ?thesis
    by (simp add: unchanged_but_notes_def)
qed

lemma run_distinct:
  assumes "distinct (map note_processor.publicKey (noteProcessors s @ noteProcessorsToCatchUp s))"
  shows "distinct (map note_processor.publicKey
           (noteProcessors (run steps s) @ noteProcessorsToCatchUp (run steps s)))"
  using assms
proof (induction steps arbitrary: s)
  case Nil
  then show ?case by simp
next
  case (Cons step steps)
  obtain env operation where "step = (env, operation)" by (cases step)
  with Cons.IH [OF exec_distinct [OF Cons.prems]] show ?case by simp
qed

lemma foldl_upd_map_of:
  "distinct (map fst es) \<Longrightarrow> foldl (\<lambda>m (k, v). m(k \<mapsto> v)) m0 es = m0 ++ map_of es"
proof (induction es arbitrary: m0)
  case Nil
  then show ?case by simp
next
  case (Cons e es)
  obtain k v where e: "e = (k, v)" by (cases e)
  from Cons.prems e have d: "distinct (map fst es)" and k: "k \<notin> dom (map_of es)"
    by (auto simp: dom_map_of_conv_image_fst)
  have "foldl (\<lambda>m (k, v). m(k \<mapsto> v)) m0 (e # es)
          = foldl (\<lambda>m (k, v). m(k \<mapsto> v)) (m0(k \<mapsto> v)) es"
    by (simp add: e)
  also have "\<dots> = m0(k \<mapsto> v) ++ map_of es" by (rule Cons.IH [OF d])
  also have "\<dots> = (m0 ++ map_of es)(k \<mapsto> v)" using k by (rule map_add_upd_left)
  also have "\<dots> = m0 ++ map_of (e # es)" by (simp add: e)
  finally show ?case .
qed

lemma fromEntries_map_of: "distinct (map fst es) \<Longrightarrow> fromEntries es = map_of es"
  by (simp add: fromEntries_def foldl_upd_map_of)

text \<open>
  Claim C10. In every state the synchronizer reaches from its constructor, the
  \<open>notes\<close> of \<open>getSyncStatus\<close> hold one entry for each note processor of the
  active list, under the string of its public key and with its \<open>syncedToBlock\<close>,
  and none for a note processor of the catch-up list; so an added account is absent
  from \<open>notes\<close> until it is promoted. \<open>Point.toString\<close> is a parameter: it is
  assumed to give different keys of the two lists different strings.
\<close>

theorem sync_status_notes:
  assumes reach: "s = run steps (new_Synchronizer INITIAL_L2_BLOCK_NUM database)"
    and inj: "inj_on (toString env)
                (note_processor.publicKey ` (set (noteProcessors s) \<union> set (noteProcessorsToCatchUp s)))"
  shows "(\<forall>np \<in> set (noteProcessors s).
            notes_by_key (getSyncStatus env s) (toString env (note_processor.publicKey np))
              = Some (syncedToBlock np))
       \<and> dom (notes_by_key (getSyncStatus env s))
            = (\<lambda>np. toString env (note_processor.publicKey np)) ` set (noteProcessors s)
       \<and> card (dom (notes_by_key (getSyncStatus env s))) = length (noteProcessors s)
       \<and> (\<forall>np \<in> set (noteProcessorsToCatchUp s).
            notes_by_key (getSyncStatus env s) (toString env (note_processor.publicKey np)) = None)"
proof -
  define es where "es = map (\<lambda>n. (toString env (note_processor.publicKey n), syncedToBlock n))
              (noteProcessors s)"
  have "distinct (map note_processor.publicKey
           (noteProcessors (new_Synchronizer INITIAL_L2_BLOCK_NUM database)
            @ noteProcessorsToCatchUp (new_Synchronizer INITIAL_L2_BLOCK_NUM database)))"
    by (simp add: new_Synchronizer_def)
  from run_distinct [OF this, of steps]
  have dk: "distinct (map note_processor.publicKey (noteProcessors s @ noteProcessorsToCatchUp s))"
    by (simp add: reach)
  then have "distinct (map (toString env) (map note_processor.publicKey
               (noteProcessors s @ noteProcessorsToCatchUp s)))"
    using inj by (simp only: distinct_map set_map set_append)
  then have ds: "distinct (map (\<lambda>np. toString env (note_processor.publicKey np))
               (noteProcessors s @ noteProcessorsToCatchUp s))"
    by (simp add: comp_def)
  have fst_es: "map fst es = map (\<lambda>np. toString env (note_processor.publicKey np)) (noteProcessors s)"
    by (simp add: es_def comp_def)
  from ds have de: "distinct (map fst es)" by (simp add: fst_es)
  have m: "notes_by_key (getSyncStatus env s) = map_of es"
    by (simp add: getSyncStatus_def es_def [symmetric] fromEntries_map_of [OF de])
  have 1: "\<forall>np \<in> set (noteProcessors s).
            map_of es (toString env (note_processor.publicKey np)) = Some (syncedToBlock np)"
  proof
    fix np assume "np \<in> set (noteProcessors s)"
    then have "(toString env (note_processor.publicKey np), syncedToBlock np) \<in> set es"
      by (auto simp: es_def)
    with de show "map_of es (toString env (note_processor.publicKey np)) = Some (syncedToBlock np)"
      by simp
  qed
  have 2: "dom (map_of es)
            = (\<lambda>np. toString env (note_processor.publicKey np)) ` set (noteProcessors s)"
    by (simp add: dom_map_of_conv_image_fst es_def image_image)
  have "card (dom (map_of es)) = card (set (map fst es))"
    by (simp add: dom_map_of_conv_image_fst)
  also have "\<dots> = length (map fst es)" using de by (rule distinct_card)
  finally have 3: "card (dom (map_of es)) = length (noteProcessors s)" by (simp add: es_def)
  have 4: "\<forall>np \<in> set (noteProcessorsToCatchUp s).
            map_of es (toString env (note_processor.publicKey np)) = None"
  proof
    fix np assume "np \<in> set (noteProcessorsToCatchUp s)"
    moreover from ds
    have "set (map (\<lambda>np. toString env (note_processor.publicKey np)) (noteProcessors s))
        \<inter> set (map (\<lambda>np. toString env (note_processor.publicKey np)) (noteProcessorsToCatchUp s))
        = {}"
      by (simp only: map_append distinct_append)
    ultimately have "toString env (note_processor.publicKey np)
        \<notin> (\<lambda>np. toString env (note_processor.publicKey np)) ` set (noteProcessors s)"
      by auto
    then have "toString env (note_processor.publicKey np) \<notin> dom (map_of es)"
      unfolding 2 .
    then show "map_of es (toString env (note_processor.publicKey np)) = None" by blast
  qed
  from 1 2 3 4 show ?thesis by (simp only: m) 
qed

text \<open>
  The theorem at work: the first account is promoted and has its entry, the second one
  is still catching up and has none.
\<close>

theorem sync_status_notes_witness:
  "notes_by_key (getSyncStatus named_env (run two_accounts_steps (new_Synchronizer 1 empty_db)))
       ''0x0102'' = Some 5
   \<and> dom (notes_by_key
            (getSyncStatus named_env (run two_accounts_steps (new_Synchronizer 1 empty_db))))
       = {''0x0102''}
   \<and> card (dom (notes_by_key
            (getSyncStatus named_env (run two_accounts_steps (new_Synchronizer 1 empty_db))))) = 1
   \<and> notes_by_key (getSyncStatus named_env (run two_accounts_steps (new_Synchronizer 1 empty_db)))
       ''0x0304'' = None"
proof -
  let ?s = "run two_accounts_steps (new_Synchronizer 1 empty_db)"
  have inj: "inj_on (toString named_env)
      (note_processor.publicKey ` (set (noteProcessors ?s) \<union> set (noteProcessorsToCatchUp ?s)))"
    by (simp add: two_accounts_eq named_env_def pk1_def pk2_def)
  have ts: "toString named_env pk1 = ''0x0102''" "toString named_env pk2 = ''0x0304''"
    by (simp_all add: named_env_def pk1_def pk2_def)
  from sync_status_notes [OF refl inj]
  show ?thesis by (simp add: two_accounts_eq ts)
qed

end
